theory Spec2Isabelle
  imports Main "HOL-Library.Word"
begin

unbundle bit_operations_syntax

section \<open>Data model\<close>

text \<open>
  The calculator package of ipcalc-go works on \<open>uint32\<close> addresses and masks, on Go
  \<open>int\<close> counters (64 bits on every release target; they are modelled as \<open>int\<close> and
  every conversion to \<open>uint32\<close> is written out), and on Go strings (byte strings).
\<close>

type_synonym u32 = "32 word"
type_synonym byte = "8 word"

text \<open>
  Every error of the package is built by \<open>fmt.Errorf\<close> or \<open>errors.New\<close> from a fixed
  message; one constructor per message, carrying the values the message prints.
\<close>

datatype error =
    InvalidIPAddress string        \<comment> \<open>"invalid IP address: %s"\<close>
  | NotAnIPv4Address string        \<comment> \<open>"not an IPv4 address: %s"\<close>
  | InvalidBitCount int            \<comment> \<open>"invalid bit count: %d (must be between 0 and 32)"\<close>
  | InvalidNetmask string          \<comment> \<open>"invalid netmask: %s"\<close>
  | NetmaskNotContiguous string    \<comment> \<open>"invalid netmask: %s (not contiguous)"\<close>
  | StartAfterEnd                  \<comment> \<open>"start address must be less than or equal to end address"\<close>
  | SizesExceedSpace u32 u32       \<comment> \<open>"requested subnet sizes exceed available space (%d > %d)"\<close>

record IPv4Network =
  Address :: u32
  Netmask :: u32
  BitCount :: int
  Broadcast :: u32
  NetworkID :: u32
  HostMin :: u32
  HostMax :: u32
  HostsCount :: u32
  Class :: string

section \<open>The Go standard library functions the package calls\<close>

text \<open>
  \<open>net.ParseIP\<close>, \<open>IP.To4\<close>, \<open>strconv.Atoi\<close>, \<open>strings.TrimPrefix\<close> and the \<open>%d\<close> verb
  of \<open>fmt.Sprintf\<close> belong to the Go standard library (Go 1.24, the toolchain of the
  release workflow), not to the repository. They are modelled here as executable functions
  following the library's sources, so that the package's functions can be evaluated on
  concrete text.
\<close>

definition is_digit :: "char \<Rightarrow> bool" where
  "is_digit c = (48 \<le> (of_char c :: nat) \<and> (of_char c :: nat) \<le> 57)"

definition digit_val :: "char \<Rightarrow> nat" where
  "digit_val c = (of_char c :: nat) - 48"

text \<open>
  \<open>netip.parseIPv4Fields\<close>: one pass over the text; \<open>val\<close> is the octet being read,
  \<open>digLen\<close> its number of digits, \<open>flds\<close> the octets stored so far (\<open>pos\<close> is their
  number), \<open>prev\<close> the previous character (\<open>None\<close> at index 0).
\<close>

fun parseIPv4Fields_loop ::
  "string \<Rightarrow> char option \<Rightarrow> nat \<Rightarrow> nat \<Rightarrow> byte list \<Rightarrow> byte list option" where
  "parseIPv4Fields_loop [] prev val digLen flds =
     (if length flds < 3 then None else Some (flds @ [of_nat val]))"
| "parseIPv4Fields_loop (c # cs) prev val digLen flds =
     (if is_digit c then
        (if digLen = 1 \<and> val = 0 then None
         else let val' = val * 10 + digit_val c in
              if val' > 255 then None
              else parseIPv4Fields_loop cs (Some c) val' (digLen + 1) flds)
      else if c = CHR ''.'' then
        (if prev = None \<or> cs = [] \<or> prev = Some (CHR ''.'') then None
         else if length flds = 3 then None
         else parseIPv4Fields_loop cs (Some c) 0 0 (flds @ [of_nat val]))
      else None)"

definition parseIPv4Fields :: "string \<Rightarrow> byte list option" where
  "parseIPv4Fields s = parseIPv4Fields_loop s None 0 0 []"

definition v4InV6Prefix :: "byte list" where
  "v4InV6Prefix = [0, 0, 0, 0, 0, 0, 0, 0, 0, 0, 0xff, 0xff]"

text \<open>\<open>netip.parseIPv4\<close> followed by \<open>Addr.As16\<close>: the IPv4-mapped 16-byte form.\<close>

definition parseIPv4_16 :: "string \<Rightarrow> byte list option" where
  "parseIPv4_16 s = map_option (\<lambda>flds. v4InV6Prefix @ flds) (parseIPv4Fields s)"

definition hex_val :: "char \<Rightarrow> nat option" where
  "hex_val c =
     (let n = (of_char c :: nat) in
      if 48 \<le> n \<and> n \<le> 57 then Some (n - 48)
      else if 97 \<le> n \<and> n \<le> 102 then Some (n - 97 + 10)
      else if 65 \<le> n \<and> n \<le> 70 then Some (n - 65 + 10)
      else None)"

text \<open>
  The hex-group scan of \<open>netip.parseIPv6\<close>: reads hex digits, failing on a fifth digit or a
  value above \<open>0xffff\<close>; returns the number of digits, the value and the unread text.
\<close>

fun hex_scan :: "string \<Rightarrow> nat \<Rightarrow> nat \<Rightarrow> (nat \<times> nat \<times> string) option" where
  "hex_scan [] off acc = Some (off, acc, [])"
| "hex_scan (c # cs) off acc =
     (case hex_val c of
        None \<Rightarrow> Some (off, acc, c # cs)
      | Some d \<Rightarrow>
          (let acc' = acc * 16 + d in
           if off > 3 then None
           else if acc' > 65535 then None
           else hex_scan cs (off + 1) acc'))"

text \<open>
  After the groups are read: the whole text must have been used; a short address needs
  an ellipsis, which is expanded to zero bytes; a full one must not have an ellipsis.
  \<open>ip\<close> holds the bytes written so far (the library's index \<open>i\<close> is \<open>length ip\<close>).
\<close>

definition parseIPv6_finish :: "string \<Rightarrow> byte list \<Rightarrow> nat option \<Rightarrow> byte list option" where
  "parseIPv6_finish s ip ellipsis =
     (if s \<noteq> [] then None
      else if length ip < 16 then
        (case ellipsis of
           None \<Rightarrow> None
         | Some e \<Rightarrow> Some (take e ip @ replicate (16 - length ip) 0 @ drop e ip))
      else if ellipsis \<noteq> None then None
      else Some ip)"

text \<open>
  The group loop of \<open>netip.parseIPv6\<close> (\<open>for i < 16\<close>). The fuel bounds the number of
  iterations; every iteration adds two bytes, so eight iterations always suffice.
\<close>

fun parseIPv6_loop :: "nat \<Rightarrow> string \<Rightarrow> byte list \<Rightarrow> nat option \<Rightarrow> byte list option" where
  "parseIPv6_loop 0 s ip ellipsis = parseIPv6_finish s ip ellipsis"
| "parseIPv6_loop (Suc fuel) s ip ellipsis =
     (if \<not> length ip < 16 then parseIPv6_finish s ip ellipsis
      else
        (case hex_scan s 0 0 of
           None \<Rightarrow> None
         | Some (off, acc, rest) \<Rightarrow>
             if off = 0 then None
             else if rest \<noteq> [] \<and> hd rest = CHR ''.'' then
               (if ellipsis = None \<and> length ip \<noteq> 12 then None
                else if length ip + 4 > 16 then None
                else (case parseIPv4Fields s of
                        None \<Rightarrow> None
                      | Some flds \<Rightarrow> parseIPv6_finish [] (ip @ flds) ellipsis))
             else
               (let ip' = ip @ [of_nat (acc div 256), of_nat acc] in
                case rest of
                  [] \<Rightarrow> parseIPv6_finish [] ip' ellipsis
                | c # cs \<Rightarrow>
                    if c \<noteq> CHR '':'' then None
                    else if cs = [] then None
                    else if hd cs = CHR '':'' then
                      (if ellipsis \<noteq> None then None
                       else if tl cs = [] then parseIPv6_finish [] ip' (Some (length ip'))
                       else parseIPv6_loop fuel (tl cs) ip' (Some (length ip')))
                    else parseIPv6_loop fuel cs ip' ellipsis)))"

text \<open>
  \<open>netip.parseIPv6\<close> as \<open>net.ParseIP\<close> sees it: an address with a zone (text after
  \<open>%\<close>) is rejected by \<open>net.parseIP\<close>, and an empty zone is a parse error, so any \<open>%\<close>
  makes the result nil.
\<close>

definition parseIPv6_16 :: "string \<Rightarrow> byte list option" where
  "parseIPv6_16 s =
     (if CHR ''%'' \<in> set s then None
      else if length s \<ge> 2 \<and> s ! 0 = CHR '':'' \<and> s ! 1 = CHR '':'' then
        (if drop 2 s = [] then Some (replicate 16 0)
         else parseIPv6_loop 8 (drop 2 s) [] (Some 0))
      else parseIPv6_loop 8 s [] None)"

text \<open>
  \<open>netip.ParseAddr\<close>: the first \<open>.\<close>, \<open>:\<close> or \<open>%\<close> of the text selects the parser.
\<close>

fun ParseAddr_scan :: "string \<Rightarrow> string \<Rightarrow> byte list option" where
  "ParseAddr_scan s [] = None"
| "ParseAddr_scan s (c # cs) =
     (if c = CHR ''.'' then parseIPv4_16 s
      else if c = CHR '':'' then parseIPv6_16 s
      else if c = CHR ''%'' then None
      else ParseAddr_scan s cs)"

text \<open>\<open>net.ParseIP\<close>: \<open>None\<close> is the nil IP; a result is always 16 bytes long.\<close>

definition net_ParseIP :: "string \<Rightarrow> byte list option" where
  "net_ParseIP s = ParseAddr_scan s s"

text \<open>
  \<open>IP.To4\<close>: a 4-byte IP is returned as it is, a 16-byte IP with the prefix
  \<open>::ffff:0:0/96\<close> gives its last four bytes, anything else is nil.
\<close>

definition To4 :: "byte list \<Rightarrow> byte list option" where
  "To4 ip =
     (if length ip = 4 then Some ip
      else if length ip = 16 \<and> take 10 ip = replicate 10 0
              \<and> ip ! 10 = 0xff \<and> ip ! 11 = 0xff
      then Some (drop 12 ip)
      else None)"

text \<open>\<open>strings.TrimPrefix s "/"\<close>.\<close>

fun TrimPrefix_slash :: "string \<Rightarrow> string" where
  "TrimPrefix_slash (c # cs) = (if c = CHR ''/'' then cs else c # cs)"
| "TrimPrefix_slash [] = []"

text \<open>
  \<open>strconv.Atoi\<close>: an optional sign, then one or more decimal digits, the value within
  the range of a 64-bit \<open>int\<close>; anything else is an error (\<open>None\<close>).
\<close>

fun digits_value :: "string \<Rightarrow> nat \<Rightarrow> nat option" where
  "digits_value [] n = Some n"
| "digits_value (c # cs) n =
     (if is_digit c then digits_value cs (n * 10 + digit_val c) else None)"

definition Atoi :: "string \<Rightarrow> int option" where
  "Atoi s =
     (case s of
        [] \<Rightarrow> None
      | c # cs \<Rightarrow>
          (let neg = (c = CHR ''-'');
               body = (if c = CHR ''-'' \<or> c = CHR ''+'' then cs else s)
           in if body = [] then None
              else (case digits_value body 0 of
                      None \<Rightarrow> None
                    | Some n \<Rightarrow>
                        (let v = (if neg then - int n else int n)
                         in if - (2 ^ 63) \<le> v \<and> v < 2 ^ 63 then Some v else None))))"

text \<open>The \<open>%d\<close> verb: decimal digits, most significant first, with a sign for negatives.\<close>

fun nat_digits :: "nat \<Rightarrow> nat \<Rightarrow> string" where
  "nat_digits 0 n = []"
| "nat_digits (Suc fuel) n =
     (if n < 10 then [char_of (48 + n)]
      else nat_digits fuel (n div 10) @ [char_of (48 + n mod 10)])"

definition fmt_nat :: "nat \<Rightarrow> string" where
  "fmt_nat n = nat_digits (Suc n) n"

definition fmt_int :: "int \<Rightarrow> string" where
  "fmt_int i = (if i < 0 then CHR ''-'' # fmt_nat (nat (- i)) else fmt_nat (nat i))"

section \<open>Addresses and masks\<close>

text \<open>\<open>ParseIPv4\<close>: \<open>net.ParseIP\<close>, then \<open>To4\<close>, then the four bytes packed big-endian.\<close>

definition ParseIPv4 :: "string \<Rightarrow> error + u32" where
  "ParseIPv4 ipStr =
     (case net_ParseIP ipStr of
        None \<Rightarrow> Inl (InvalidIPAddress ipStr)
      | Some ip \<Rightarrow>
          (case To4 ip of
             None \<Rightarrow> Inl (NotAnIPv4Address ipStr)
           | Some ip4 \<Rightarrow>
               Inr (push_bit 24 (ucast (ip4 ! 0)) OR push_bit 16 (ucast (ip4 ! 1))
                    OR push_bit 8 (ucast (ip4 ! 2)) OR ucast (ip4 ! 3))))"

text \<open>
  \<open>isValidNetmask\<close>: the loop \<open>for i := 31; i >= 0; i--\<close>; the counter of the model is
  \<open>i + 1\<close>.
\<close>

fun isValidNetmask_loop :: "nat \<Rightarrow> bool \<Rightarrow> u32 \<Rightarrow> bool" where
  "isValidNetmask_loop 0 foundZero msk = True"
| "isValidNetmask_loop (Suc i) foundZero msk =
     (let bit_set = (msk AND push_bit i 1 \<noteq> 0) in
      if \<not> bit_set then isValidNetmask_loop i True msk
      else if foundZero then False
      else isValidNetmask_loop i foundZero msk)"

definition isValidNetmask :: "u32 \<Rightarrow> bool" where
  "isValidNetmask msk = isValidNetmask_loop 32 False msk"

text \<open>The mask of a bit count: \<open>for i := 0; i < bitCount; i++ { mask |= 1 << (31 - i) }\<close>.\<close>

definition mask_of_bitCount :: "int \<Rightarrow> u32" where
  "mask_of_bitCount bitCount =
     fold (\<lambda>i msk. msk OR push_bit (31 - i) 1) [0..<nat bitCount] 0"

text \<open>
  Counting the leading 1 bits: \<open>for i := 0; i < 32; i++\<close> with a \<open>break\<close> at the first
  0 bit; \<open>k\<close> is the number of iterations left.
\<close>

fun countBits_loop :: "nat \<Rightarrow> nat \<Rightarrow> int \<Rightarrow> u32 \<Rightarrow> int" where
  "countBits_loop 0 i bitCount msk = bitCount"
| "countBits_loop (Suc k) i bitCount msk =
     (if msk AND push_bit (31 - i) 1 \<noteq> 0
      then countBits_loop k (i + 1) (bitCount + 1) msk
      else bitCount)"

definition ParseNetmask :: "string \<Rightarrow> error + (u32 \<times> int)" where
  "ParseNetmask maskStr0 =
     (let maskStr = TrimPrefix_slash maskStr0 in
      case Atoi maskStr of
        Some bitCount \<Rightarrow>
          if bitCount < 0 \<or> bitCount > 32 then Inl (InvalidBitCount bitCount)
          else Inr (mask_of_bitCount bitCount, bitCount)
      | None \<Rightarrow>
          (case ParseIPv4 maskStr of
             Inl err \<Rightarrow> Inl (InvalidNetmask maskStr)
           | Inr msk \<Rightarrow>
               if \<not> isValidNetmask msk then Inl (NetmaskNotContiguous maskStr)
               else Inr (msk, countBits_loop 32 0 0 msk)))"

definition IPToString :: "u32 \<Rightarrow> string" where
  "IPToString ip =
     fmt_nat (unat (drop_bit 24 ip AND 0xFF)) @ ''.'' @
     fmt_nat (unat (drop_bit 16 ip AND 0xFF)) @ ''.'' @
     fmt_nat (unat (drop_bit 8 ip AND 0xFF)) @ ''.'' @
     fmt_nat (unat (ip AND 0xFF))"

definition GetClass :: "u32 \<Rightarrow> string" where
  "GetClass ip =
     (if ip AND 0x80000000 = 0 then ''A''
      else if ip AND 0xC0000000 = 0x80000000 then ''B''
      else if ip AND 0xE0000000 = 0xC0000000 then ''C''
      else if ip AND 0xF0000000 = 0xE0000000 then ''D''
      else ''E'')"

definition GetWildcardMask :: "u32 \<Rightarrow> u32" where
  "GetWildcardMask netmask = NOT netmask"

section \<open>CalculateNetwork\<close>

text \<open>
  The struct is created with \<open>Address\<close>, \<open>Netmask\<close>, \<open>BitCount\<close> and \<open>NetworkID\<close>
  (the other fields zero), then updated field by field. In
  \<open>(1 << (32 - bitCount)) - 2\<close> the constant 1 takes the type of \<open>HostsCount\<close>,
  \<open>uint32\<close>, so a shift by 32 gives 0.
\<close>

definition CalculateNetwork :: "string \<Rightarrow> string \<Rightarrow> error + IPv4Network" where
  "CalculateNetwork ipStr maskStr =
     (case ParseIPv4 ipStr of
        Inl err \<Rightarrow> Inl err
      | Inr ip \<Rightarrow>
          (case ParseNetmask maskStr of
             Inl err \<Rightarrow> Inl err
           | Inr (msk, bitCount) \<Rightarrow>
               (let network = \<lparr> Address = ip, Netmask = msk, BitCount = bitCount,
                                Broadcast = 0, NetworkID = ip AND msk, HostMin = 0,
                                HostMax = 0, HostsCount = 0, Class = [] \<rparr>;
                    network = network \<lparr> Broadcast := NetworkID network OR NOT msk \<rparr>;
                    network =
                      (if bitCount = 31 then
                         network \<lparr> HostMin := NetworkID network,
                                   HostMax := Broadcast network,
                                   HostsCount := 2 \<rparr>
                       else if bitCount = 32 then
                         network \<lparr> HostMin := NetworkID network,
                                   HostMax := NetworkID network,
                                   HostsCount := 1 \<rparr>
                       else
                         network \<lparr> HostMin := NetworkID network + 1,
                                   HostMax := Broadcast network - 1,
                                   HostsCount := push_bit (nat (32 - bitCount)) 1 - 2 \<rparr>)
                in Inr (network \<lparr> Class := GetClass ip \<rparr>))))"

section \<open>Deaggregate\<close>

text \<open>
  A CIDR block is a base address and a prefix length. \<open>Deaggregate\<close> and \<open>SplitNetwork\<close>
  append the text \<open>"%s/%d"\<close> of each block to their result; the loops of the model keep
  the blocks and the text is produced from them when the loop returns.
\<close>

type_synonym block = "u32 \<times> int"

definition block_string :: "block \<Rightarrow> string" where
  "block_string b = IPToString (fst b) @ ''/'' @ fmt_int (snd b)"

text \<open>
  The inner loop \<open>for prefix = 0; prefix < 32; prefix++\<close>: it leaves with \<open>break\<close> at
  the first prefix whose block ends at or before \<open>end\<close> and starts at \<open>start\<close>, and with
  \<open>prefix = 32\<close> when there is none. A \<open>uint32\<close> shifted by 32 is 0.
\<close>

function Deaggregate_prefix_loop :: "int \<Rightarrow> u32 \<Rightarrow> u32 \<Rightarrow> int" where
  "Deaggregate_prefix_loop prefix start endip =
     (if prefix < 32 then
        (let msk = push_bit (nat (32 - prefix)) (0xFFFFFFFF :: u32);
             networkID = start AND msk;
             blockEnd = networkID OR NOT msk
         in if blockEnd > endip then Deaggregate_prefix_loop (prefix + 1) start endip
            else if networkID = start then prefix
            else Deaggregate_prefix_loop (prefix + 1) start endip)
      else prefix)"
  by pat_completeness auto
termination
  by (relation "measure (\<lambda>(prefix, start, endip). nat (32 - prefix))") auto

declare Deaggregate_prefix_loop.simps [simp del]

text \<open>
  The main loop \<open>for start <= end\<close>. Nothing bounds its number of iterations, so the model
  is a partial function: \<open>None\<close> means that the loop does not return. In
  \<open>start += 1 << (32 - prefix)\<close> the constant 1 is a \<open>uint32\<close> and the addition wraps.
\<close>

partial_function (option) Deaggregate_loop :: "u32 \<Rightarrow> u32 \<Rightarrow> block list \<Rightarrow> block list option" where
  "Deaggregate_loop start endip result =
     (if start \<le> endip then
        (let prefix = Deaggregate_prefix_loop 0 start endip
         in Deaggregate_loop (start + push_bit (nat (32 - prefix)) 1) endip
              (result @ [(start, prefix)]))
      else Some result)"

declare Deaggregate_loop.simps [code]

text \<open>\<open>Deaggregate\<close>: \<open>None\<close> when the call does not return, otherwise its error or its list.\<close>

definition Deaggregate :: "string \<Rightarrow> string \<Rightarrow> (error + string list) option" where
  "Deaggregate startStr endStr =
     (case ParseIPv4 startStr of
        Inl err \<Rightarrow> Some (Inl err)
      | Inr start \<Rightarrow>
          (case ParseIPv4 endStr of
             Inl err \<Rightarrow> Some (Inl err)
           | Inr endip \<Rightarrow>
               if start > endip then Some (Inl StartAfterEnd)
               else map_option (\<lambda>result. Inr (map block_string result))
                      (Deaggregate_loop start endip [])))"

section \<open>SplitNetwork\<close>

text \<open>
  The doubling loop \<open>for hostsNeeded-2 < uint32(size) { hostsNeeded *= 2 }\<close> on \<open>uint32\<close>
  values; a partial function, since nothing bounds its iterations.
\<close>

partial_function (option) hostsNeeded_loop :: "u32 \<Rightarrow> u32 \<Rightarrow> u32 option" where
  "hostsNeeded_loop hostsNeeded sz =
     (if hostsNeeded - 2 < sz then hostsNeeded_loop (hostsNeeded * 2) sz
      else Some hostsNeeded)"

declare hostsNeeded_loop.simps [code]

text \<open>
  The loop over \<open>sizes\<close>: \<open>uint32(size)\<close> keeps the low 32 bits of the \<open>int\<close>;
  \<open>totalRequired\<close> is a \<open>uint32\<close> and its addition wraps.
\<close>

fun sizes_loop :: "int list \<Rightarrow> u32 list \<Rightarrow> u32 \<Rightarrow> (u32 list \<times> u32) option" where
  "sizes_loop [] hostCounts totalRequired = Some (hostCounts, totalRequired)"
| "sizes_loop (sz # sizes) hostCounts totalRequired =
     (case hostsNeeded_loop 4 (word_of_int sz) of
        None \<Rightarrow> None
      | Some hostsNeeded \<Rightarrow>
          sizes_loop sizes (hostCounts @ [hostsNeeded]) (totalRequired + hostsNeeded))"

text \<open>The prefix of a host count: \<open>for hostCount > 1 { hostCount >>= 1; prefix-- }\<close>.\<close>

function SplitNetwork_prefix_loop :: "u32 \<Rightarrow> int \<Rightarrow> int" where
  "SplitNetwork_prefix_loop hostCount prefix =
     (if hostCount > 1 then SplitNetwork_prefix_loop (drop_bit 1 hostCount) (prefix - 1)
      else prefix)"
  by pat_completeness auto
termination
proof (relation "measure (\<lambda>(hostCount, prefix). unat hostCount)")
  show "wf (measure (\<lambda>(hostCount, prefix). unat hostCount))" by simp
next
  fix hostCount :: u32 and prefix :: int
  assume "1 < hostCount"
  then have "0 < unat hostCount" by (simp add: word_less_nat_alt)
  then have "unat hostCount div 2 < unat hostCount" by simp
  then show "((drop_bit 1 hostCount, prefix - 1), (hostCount, prefix))
               \<in> measure (\<lambda>(hostCount, prefix). unat hostCount)"
    by (simp add: drop_bit_eq_div unat_div)
qed

declare SplitNetwork_prefix_loop.simps [simp del]

text \<open>
  The allocation loop: each subnet is obtained from \<open>CalculateNetwork\<close> on the text of
  the cursor and of the prefix, and the cursor then advances by \<open>1 << (32 - prefix)\<close>
  (\<open>uint32\<close>, wrapping).
\<close>

fun alloc_loop :: "u32 list \<Rightarrow> u32 \<Rightarrow> block list \<Rightarrow> error + block list" where
  "alloc_loop [] currentIP result = Inr result"
| "alloc_loop (hostCount # hostCounts) currentIP result =
     (let prefix = SplitNetwork_prefix_loop hostCount 32 in
      case CalculateNetwork (IPToString currentIP) (fmt_int prefix) of
        Inl err \<Rightarrow> Inl err
      | Inr subnetNetwork \<Rightarrow>
          alloc_loop hostCounts (currentIP + push_bit (nat (32 - prefix)) 1)
            (result @ [(NetworkID subnetNetwork, prefix)]))"

text \<open>
  \<open>SplitNetwork\<close>: \<open>None\<close> when the call does not return. \<open>totalHosts\<close> is
  \<open>uint32(1) << (32 - uint32(network.BitCount))\<close>.
\<close>

definition SplitNetwork :: "string \<Rightarrow> string \<Rightarrow> int list \<Rightarrow> (error + string list) option" where
  "SplitNetwork networkStr maskStr sizes =
     (case CalculateNetwork networkStr maskStr of
        Inl err \<Rightarrow> Some (Inl err)
      | Inr network \<Rightarrow>
          (let totalHosts = push_bit (unat (32 - word_of_int (BitCount network) :: u32)) (1 :: u32)
           in case sizes_loop sizes [] 0 of
                None \<Rightarrow> None
              | Some (hostCounts, totalRequired) \<Rightarrow>
                  if totalRequired > totalHosts
                  then Some (Inl (SizesExceedSpace totalRequired totalHosts))
                  else (case alloc_loop hostCounts (NetworkID network) [] of
                          Inl err \<Rightarrow> Some (Inl err)
                        | Inr result \<Rightarrow> Some (Inr (map block_string result)))))"

section \<open>Notions of the specification\<close>

text \<open>
  A valid mask in the specification's words: a run of 1 bits from the most significant
  bit, followed only by 0 bits; its prefix length is the number of leading 1 bits.
\<close>

definition contiguous_mask :: "u32 \<Rightarrow> bool" where
  "contiguous_mask m = (\<exists>k\<in>{0..32}. \<forall>i\<in>{0..<32}. bit m i = (32 - k \<le> i))"

definition leading_ones :: "u32 \<Rightarrow> nat" where
  "leading_ones m = length (takeWhile (\<lambda>i. bit m (31 - i)) [0..<32])"

text \<open>
  A CIDR block of prefix length \<open>p\<close> that starts at \<open>start\<close> is aligned when \<open>start\<close> is
  a multiple of its size \<open>2^(32 - p)\<close>, and it does not pass \<open>end\<close> when its last address
  is at most \<open>end\<close>.
\<close>

definition cidr_fits :: "u32 \<Rightarrow> u32 \<Rightarrow> int \<Rightarrow> bool" where
  "cidr_fits start endip p =
     (2 ^ nat (32 - p) dvd unat start \<and> unat start + 2 ^ nat (32 - p) - 1 \<le> unat endip)"

text \<open>
  The addresses of a block, as numbers, and the greedy left-to-right decomposition of the
  specification: while \<open>start \<le> end\<close>, take the largest aligned block at \<open>start\<close> that
  does not pass \<open>end\<close> (the smallest prefix length that fits), then continue after it.
\<close>

definition block_addrs :: "block \<Rightarrow> nat set" where
  "block_addrs b = {unat (fst b) ..< unat (fst b) + 2 ^ nat (32 - snd b)}"

definition block_aligned :: "block \<Rightarrow> bool" where
  "block_aligned b = (2 ^ nat (32 - snd b) dvd unat (fst b))"

inductive greedy_cover :: "u32 \<Rightarrow> u32 \<Rightarrow> block list \<Rightarrow> bool" where
  stop: "endip < start \<Longrightarrow> greedy_cover start endip []"
| emit: "start \<le> endip \<Longrightarrow> 0 \<le> p \<Longrightarrow> p \<le> 32 \<Longrightarrow> cidr_fits start endip p
         \<Longrightarrow> (\<forall>q. 0 \<le> q \<and> q < p \<longrightarrow> \<not> cidr_fits start endip q)
         \<Longrightarrow> greedy_cover (start + 2 ^ nat (32 - p)) endip bs
         \<Longrightarrow> greedy_cover start endip ((start, p) # bs)"

section \<open>Masks: bit-level facts\<close>

lemma and_exp_eq_0_iff: "(m AND 2 ^ i = 0) = (\<not> bit m i)" for m :: u32
  using bit_iff_and_push_bit_not_eq_0 [of m i] by simp

lemma NOT_mask_32: "NOT (mask 32) = (0 :: u32)"
  by (rule bit_word_eqI) (simp add: bit_simps)

lemma mask_step:
  "n < 32 \<Longrightarrow> NOT (mask (32 - n)) OR 2 ^ (31 - n) = (NOT (mask (31 - n)) :: u32)"
  by (rule bit_word_eqI) (auto simp: bit_simps)

lemma mask_fold:
  "n \<le> 32 \<Longrightarrow>
   fold (\<lambda>i msk. msk OR push_bit (31 - i) 1) [0..<n] (0::u32) = NOT (mask (32 - n))"
proof (induction n)
  case 0
  show ?case by (simp add: NOT_mask_32)
next
  case (Suc n)
  then have "n < 32" by simp
  with Suc show ?case by (simp add: mask_step del: mask_Suc_0)
qed

lemma mask_of_bitCount_eq:
  "0 \<le> bc \<Longrightarrow> bc \<le> 32 \<Longrightarrow> mask_of_bitCount bc = NOT (mask (32 - nat bc))"
  unfolding mask_of_bitCount_def by (rule mask_fold) simp

lemma isValidNetmask_loop_Suc:
  "isValidNetmask_loop (Suc i) fz m =
     (if \<not> bit m i then isValidNetmask_loop i True m
      else if fz then False else isValidNetmask_loop i fz m)"
  by (simp add: and_exp_eq_0_iff)

lemma isValidNetmask_loop_True:
  "isValidNetmask_loop n True m = (\<forall>j<n. \<not> bit m j)"
  by (induction n)
     (auto simp: isValidNetmask_loop_Suc less_Suc_eq simp del: isValidNetmask_loop.simps(2))

lemma isValidNetmask_loop_False:
  "isValidNetmask_loop n False m = (\<exists>k\<le>n. \<forall>j<n. bit m j = (n - k \<le> j))"
proof (induction n)
  case 0
  show ?case by simp
next
  case (Suc n)
  show ?case
  proof (cases "bit m n")
    case True
    have "(\<exists>k\<le>n. \<forall>j<n. bit m j = (n - k \<le> j))
        = (\<exists>k\<le>Suc n. \<forall>j<Suc n. bit m j = (Suc n - k \<le> j))"
      (is "?L = ?R")
    proof
      assume ?L
      then obtain k where k: "k \<le> n" "\<forall>j<n. bit m j = (n - k \<le> j)" by blast
      have "\<forall>j<Suc n. bit m j = (Suc n - Suc k \<le> j)"
        using k True by (auto simp: less_Suc_eq)
      with k(1) show ?R by (intro exI[of _ "Suc k"]) simp
    next
      assume ?R
      then obtain k where k: "k \<le> Suc n" "\<forall>j<Suc n. bit m j = (Suc n - k \<le> j)" by blast
      from k(2) True have "Suc n - k \<le> n" by auto
      then have "k \<noteq> 0" by auto
      then obtain k' where "k = Suc k'" by (cases k) auto
      with k have "k' \<le> n" "\<forall>j<n. bit m j = (n - k' \<le> j)" by auto
      then show ?L by blast
    qed
    with True Suc show ?thesis
      by (simp add: isValidNetmask_loop_Suc del: isValidNetmask_loop.simps(2))
  next
    case False
    have "(\<forall>j<n. \<not> bit m j)
        = (\<exists>k\<le>Suc n. \<forall>j<Suc n. bit m j = (Suc n - k \<le> j))"
      (is "?L = ?R")
    proof
      assume ?L
      with False have "\<forall>j<Suc n. bit m j = (Suc n - 0 \<le> j)" by (auto simp: less_Suc_eq)
      then show ?R by blast
    next
      assume ?R
      then obtain k where k: "k \<le> Suc n" "\<forall>j<Suc n. bit m j = (Suc n - k \<le> j)" by blast
      from k(2) False have "\<not> Suc n - k \<le> n" by auto
      then have "k = 0" by auto
      with k show ?L by auto
    qed
    with False show ?thesis
      by (simp add: isValidNetmask_loop_Suc isValidNetmask_loop_True
               del: isValidNetmask_loop.simps(2))
  qed
qed

lemma isValidNetmask_iff: "isValidNetmask m = contiguous_mask m"
  unfolding isValidNetmask_def contiguous_mask_def isValidNetmask_loop_False
  by (simp add: Bex_def Ball_def)

lemma countBits_loop_eq:
  "countBits_loop k i bc m = bc + int (length (takeWhile (\<lambda>j. bit m (31 - j)) [i..<i + k]))"
proof (induction k arbitrary: i bc)
  case 0
  show ?case by simp
next
  case (Suc k)
  have upt: "[i..<i + Suc k] = i # [Suc i..<Suc i + k]"
    by (simp add: upt_conv_Cons)
  show ?case
    unfolding upt using Suc [of "i + 1" "bc + 1"]
    by (simp add: and_exp_eq_0_iff)
qed

lemma countBits_leading_ones: "countBits_loop 32 0 0 m = int (leading_ones m)"
  unfolding leading_ones_def countBits_loop_eq by simp

lemma leading_ones_le: "leading_ones m \<le> 32"
proof -
  have "length (takeWhile (\<lambda>i. bit m (31 - i)) [0..<32]) \<le> length [0..<32::nat]"
    by (rule length_takeWhile_le)
  then show ?thesis by (simp add: leading_ones_def)
qed

lemma ParseNetmask_bitCount_range:
  assumes "ParseNetmask s = Inr (m, bc)"
  shows "0 \<le> bc \<and> bc \<le> 32"
  using assms leading_ones_le [of m]
  by (auto simp: ParseNetmask_def Let_def countBits_leading_ones
           split: option.splits sum.splits if_splits)

lemma takeWhile_less_upt: "k \<le> n \<Longrightarrow> takeWhile (\<lambda>i. i < k) [0..<n] = [0..<k]"
proof (induction n)
  case 0
  then show ?case by simp
next
  case (Suc n)
  show ?case
  proof (cases "k = Suc n")
    case True
    have "takeWhile (\<lambda>i. i < k) ([0..<n] @ [n]) = [0..<n] @ takeWhile (\<lambda>i. i < k) [n]"
      by (rule takeWhile_append2) (use True in simp)
    with True show ?thesis by simp
  next
    case False
    with Suc.prems have kn: "k \<le> n" by simp
    show ?thesis
    proof (cases "k = n")
      case True
      have "takeWhile (\<lambda>i. i < k) ([0..<n] @ [n]) = [0..<n] @ takeWhile (\<lambda>i. i < k) [n]"
        by (rule takeWhile_append2) (use True in simp)
      with True show ?thesis by simp
    next
      case False
      with kn have "k < n" by simp
      then have "k \<in> set [0..<n]" "\<not> k < k" by simp_all
      then have "takeWhile (\<lambda>i. i < k) ([0..<n] @ [n]) = takeWhile (\<lambda>i. i < k) [0..<n]"
        by (rule takeWhile_append1)
      with Suc.IH kn show ?thesis by simp
    qed
  qed
qed

lemma contiguous_mask_D:
  assumes "contiguous_mask m"
  shows "m = NOT (mask (32 - leading_ones m))"
proof -
  from assms obtain k where k: "k \<le> 32" "\<forall>i<32. bit m i = (32 - k \<le> i)"
    by (auto simp: contiguous_mask_def)
  have "takeWhile (\<lambda>i. bit m (31 - i)) [0..<32] = takeWhile (\<lambda>i. i < k) [0..<32]"
    by (rule takeWhile_cong) (use k in auto)
  with k(1) have l: "leading_ones m = k"
    by (simp add: leading_ones_def takeWhile_less_upt)
  have "m = NOT (mask (32 - k))"
    by (rule bit_word_eqI) (use k in \<open>auto simp: bit_simps\<close>)
  with l show ?thesis by simp
qed

lemma ParseNetmask_mask_of_prefix:
  assumes "ParseNetmask s = Inr (msk, bc)"
  shows "msk = NOT (mask (nat (32 - bc)))"
proof (cases "Atoi (TrimPrefix_slash s)")
  case (Some b)
  with assms have "0 \<le> bc" "bc \<le> 32" "msk = mask_of_bitCount bc"
    by (auto simp: ParseNetmask_def Let_def split: if_splits)
  then show ?thesis by (simp add: mask_of_bitCount_eq nat_diff_distrib)
next
  case None
  with assms obtain m where "contiguous_mask m" "msk = m" "bc = int (leading_ones m)"
    by (auto simp: ParseNetmask_def Let_def isValidNetmask_iff countBits_leading_ones
             split: sum.splits if_splits)
  moreover have "nat (32 - int (leading_ones m)) = 32 - leading_ones m" by simp
  ultimately show ?thesis using contiguous_mask_D [of m] by simp
qed

text \<open>
  C6. A mask text that \<open>strconv.Atoi\<close> rejects and \<open>ParseIPv4\<close> accepts (every dotted
  quad is such a text) is accepted by \<open>ParseNetmask\<close> exactly when its 32-bit value is a
  run of 1 bits from the most significant bit followed only by 0 bits; the result is then
  that value with the number of its leading 1 bits, and otherwise the error is the
  "not contiguous" one.
\<close>

theorem ParseNetmask_dotted_quad:
  assumes "Atoi (TrimPrefix_slash s) = None" and "ParseIPv4 (TrimPrefix_slash s) = Inr m"
  shows "ParseNetmask s =
     (if contiguous_mask m then Inr (m, int (leading_ones m))
      else Inl (NetmaskNotContiguous (TrimPrefix_slash s)))"
  using assms by (simp add: ParseNetmask_def isValidNetmask_iff countBits_leading_ones)

section \<open>CalculateNetwork: derived fields\<close>

lemma CalculateNetwork_InrD:
  assumes "CalculateNetwork ipStr maskStr = Inr n"
  obtains ip msk bc where "ParseIPv4 ipStr = Inr ip" "ParseNetmask maskStr = Inr (msk, bc)"
    "Address n = ip" "Netmask n = msk" "BitCount n = bc"
    "NetworkID n = ip AND msk" "Broadcast n = (ip AND msk) OR NOT msk"
    "HostMin n = (if bc = 31 \<or> bc = 32 then ip AND msk else (ip AND msk) + 1)"
    "HostMax n = (if bc = 31 then (ip AND msk) OR NOT msk
                  else if bc = 32 then ip AND msk else ((ip AND msk) OR NOT msk) - 1)"
    "HostsCount n = (if bc = 31 then 2 else if bc = 32 then 1
                     else push_bit (nat (32 - bc)) 1 - 2)"
    "Class n = GetClass ip"
  using assms unfolding CalculateNetwork_def
  by (auto simp: Let_def split: sum.splits prod.splits if_splits)

text \<open>
  C7. Every network returned by \<open>CalculateNetwork\<close> satisfies
  \<open>networkId AND wildcard(mask) = 0\<close> and \<open>broadcast = networkId OR wildcard(mask)\<close>,
  the wildcard being \<open>GetWildcardMask\<close> of the netmask.
\<close>

theorem CalculateNetwork_wildcard_identities:
  assumes "CalculateNetwork ipStr maskStr = Inr n"
  shows "NetworkID n AND GetWildcardMask (Netmask n) = 0
       \<and> Broadcast n = NetworkID n OR GetWildcardMask (Netmask n)"
proof -
  from assms obtain ip msk where n: "Netmask n = msk" "NetworkID n = ip AND msk"
    "Broadcast n = (ip AND msk) OR NOT msk"
    by (rule CalculateNetwork_InrD)
  have "(ip AND msk) AND NOT msk = 0"
    by (rule bit_word_eqI) (simp add: bit_simps)
  with n show ?thesis by (simp add: GetWildcardMask_def)
qed

text \<open>
  C5. For every address text that \<open>ParseIPv4\<close> accepts (value \<open>ip\<close>) and every mask
  text that \<open>ParseNetmask\<close> accepts (mask \<open>msk\<close>, prefix length \<open>bc\<close>, the mask being
  \<open>bc\<close> leading 1 bits), \<open>CalculateNetwork\<close> returns a network with that prefix length,
  \<open>networkId = ip AND msk\<close>, \<open>broadcast = networkId OR NOT msk\<close>, and the host fields by
  prefix length: up to 30, \<open>hostMin = networkId + 1\<close>, \<open>hostMax = broadcast - 1\<close> and
  \<open>hostCount = 2^(32 - prefixLen) - 2\<close> as a 32-bit value; at 31, \<open>hostMin = networkId\<close>,
  \<open>hostMax = broadcast\<close>, \<open>hostCount = 2\<close>; at 32, \<open>hostMin = hostMax = networkId\<close> and
  \<open>hostCount = 1\<close>.
\<close>

theorem CalculateNetwork_host_fields:
  assumes "ParseIPv4 ipStr = Inr ip" and "ParseNetmask maskStr = Inr (msk, bc)"
  shows "\<exists>n. CalculateNetwork ipStr maskStr = Inr n
       \<and> BitCount n = bc \<and> 0 \<le> bc \<and> bc \<le> 32
       \<and> Netmask n = msk \<and> msk = NOT (mask (nat (32 - bc)))
       \<and> NetworkID n = ip AND msk \<and> Broadcast n = (ip AND msk) OR NOT msk
       \<and> (bc \<le> 30 \<longrightarrow>
            HostMin n = NetworkID n + 1 \<and> HostMax n = Broadcast n - 1
            \<and> HostsCount n = word_of_int (2 ^ nat (32 - bc) - 2))
       \<and> (bc = 31 \<longrightarrow>
            HostMin n = NetworkID n \<and> HostMax n = Broadcast n \<and> HostsCount n = 2)
       \<and> (bc = 32 \<longrightarrow>
            HostMin n = NetworkID n \<and> HostMax n = NetworkID n \<and> HostsCount n = 1)"
proof -
  from assms(2) have r: "0 \<le> bc \<and> bc \<le> 32" by (rule ParseNetmask_bitCount_range)
  from assms(2) have m: "msk = NOT (mask (nat (32 - bc)))" by (rule ParseNetmask_mask_of_prefix)
  have p: "push_bit (nat (32 - bc)) 1 - 2 = (word_of_int (2 ^ nat (32 - bc) - 2) :: u32)"
    by (simp add: push_bit_eq_mult)
  obtain n where n: "CalculateNetwork ipStr maskStr = Inr n"
    using assms by (simp add: CalculateNetwork_def Let_def)
  from n obtain ip' msk' bc' where q: "ParseIPv4 ipStr = Inr ip'"
    "ParseNetmask maskStr = Inr (msk', bc')"
    "Netmask n = msk'" "BitCount n = bc'"
    "NetworkID n = ip' AND msk'" "Broadcast n = (ip' AND msk') OR NOT msk'"
    "HostMin n = (if bc' = 31 \<or> bc' = 32 then ip' AND msk' else (ip' AND msk') + 1)"
    "HostMax n = (if bc' = 31 then (ip' AND msk') OR NOT msk'
                  else if bc' = 32 then ip' AND msk' else ((ip' AND msk') OR NOT msk') - 1)"
    "HostsCount n = (if bc' = 31 then 2 else if bc' = 32 then 1
                     else push_bit (nat (32 - bc')) 1 - 2)"
    by (rule CalculateNetwork_InrD)
  from q(1,2) assms have e: "ip' = ip" "msk' = msk" "bc' = bc" by simp_all
  have f: "BitCount n = bc \<and> Netmask n = msk \<and> NetworkID n = ip AND msk
         \<and> Broadcast n = (ip AND msk) OR NOT msk"
    using q(3-6) e by simp
  have g: "bc \<le> 30 \<longrightarrow>
            HostMin n = NetworkID n + 1 \<and> HostMax n = Broadcast n - 1
            \<and> HostsCount n = word_of_int (2 ^ nat (32 - bc) - 2)"
    using q(5-9) e p by simp
  have h: "bc = 31 \<longrightarrow>
            HostMin n = NetworkID n \<and> HostMax n = Broadcast n \<and> HostsCount n = 2"
    using q(5-9) e by simp
  have i: "bc = 32 \<longrightarrow>
            HostMin n = NetworkID n \<and> HostMax n = NetworkID n \<and> HostsCount n = 1"
    using q(5-9) e by simp
  from n r m f g h i show ?thesis by blast
qed


section \<open>Evaluation on concrete text\<close>

lemma parse_192_168_1_1: "ParseIPv4 ''192.168.1.1'' = Inr 0xC0A80101" by code_simp
lemma netmask_24: "ParseNetmask ''24'' = Inr (0xFFFFFF00, 24)" by code_simp
lemma netmask_31: "ParseNetmask ''31'' = Inr (0xFFFFFFFE, 31)" by code_simp
lemma netmask_32: "ParseNetmask ''32'' = Inr (0xFFFFFFFF, 32)" by code_simp

lemma calc_24: "CalculateNetwork ''192.168.1.1'' ''24'' =
     Inr \<lparr> Address = 0xC0A80101, Netmask = 0xFFFFFF00, BitCount = 24, Broadcast = 0xC0A801FF,
           NetworkID = 0xC0A80100, HostMin = 0xC0A80101, HostMax = 0xC0A801FE,
           HostsCount = 254, Class = ''C'' \<rparr>"
  by (simp add: CalculateNetwork_def parse_192_168_1_1 netmask_24 GetClass_def)

lemma calc_31: "CalculateNetwork ''192.168.1.1'' ''31'' =
     Inr \<lparr> Address = 0xC0A80101, Netmask = 0xFFFFFFFE, BitCount = 31, Broadcast = 0xC0A80101,
           NetworkID = 0xC0A80100, HostMin = 0xC0A80100, HostMax = 0xC0A80101,
           HostsCount = 2, Class = ''C'' \<rparr>"
  by (simp add: CalculateNetwork_def parse_192_168_1_1 netmask_31 GetClass_def)

lemma calc_32: "CalculateNetwork ''192.168.1.1'' ''32'' =
     Inr \<lparr> Address = 0xC0A80101, Netmask = 0xFFFFFFFF, BitCount = 32, Broadcast = 0xC0A80101,
           NetworkID = 0xC0A80101, HostMin = 0xC0A80101, HostMax = 0xC0A80101,
           HostsCount = 1, Class = ''C'' \<rparr>"
  by (simp add: CalculateNetwork_def parse_192_168_1_1 netmask_32 GetClass_def)

theorem CalculateNetwork_host_fields_witness:
  "ParseIPv4 ''192.168.1.1'' = Inr 0xC0A80101
   \<and> ParseNetmask ''24'' = Inr (0xFFFFFF00, 24)
   \<and> (\<exists>n. CalculateNetwork ''192.168.1.1'' ''24'' = Inr n \<and> BitCount n = 24
          \<and> NetworkID n = 0xC0A80100 \<and> Broadcast n = 0xC0A801FF
          \<and> HostMin n = 0xC0A80101 \<and> HostMax n = 0xC0A801FE \<and> HostsCount n = 254)
   \<and> ParseNetmask ''31'' = Inr (0xFFFFFFFE, 31)
   \<and> (\<exists>n. CalculateNetwork ''192.168.1.1'' ''31'' = Inr n \<and> BitCount n = 31
          \<and> NetworkID n = 0xC0A80100 \<and> Broadcast n = 0xC0A80101
          \<and> HostMin n = 0xC0A80100 \<and> HostMax n = 0xC0A80101 \<and> HostsCount n = 2)
   \<and> ParseNetmask ''32'' = Inr (0xFFFFFFFF, 32)
   \<and> (\<exists>n. CalculateNetwork ''192.168.1.1'' ''32'' = Inr n \<and> BitCount n = 32
          \<and> NetworkID n = 0xC0A80101 \<and> Broadcast n = 0xC0A80101
          \<and> HostMin n = 0xC0A80101 \<and> HostMax n = 0xC0A80101 \<and> HostsCount n = 1)"
proof -
  have a: "\<exists>n. CalculateNetwork ''192.168.1.1'' ''24'' = Inr n \<and> BitCount n = 24
          \<and> NetworkID n = 0xC0A80100 \<and> Broadcast n = 0xC0A801FF
          \<and> HostMin n = 0xC0A80101 \<and> HostMax n = 0xC0A801FE \<and> HostsCount n = 254"
    using CalculateNetwork_host_fields [OF parse_192_168_1_1 netmask_24] by auto
  have b: "\<exists>n. CalculateNetwork ''192.168.1.1'' ''31'' = Inr n \<and> BitCount n = 31
          \<and> NetworkID n = 0xC0A80100 \<and> Broadcast n = 0xC0A80101
          \<and> HostMin n = 0xC0A80100 \<and> HostMax n = 0xC0A80101 \<and> HostsCount n = 2"
    using CalculateNetwork_host_fields [OF parse_192_168_1_1 netmask_31] by auto
  have c: "\<exists>n. CalculateNetwork ''192.168.1.1'' ''32'' = Inr n \<and> BitCount n = 32
          \<and> NetworkID n = 0xC0A80101 \<and> Broadcast n = 0xC0A80101
          \<and> HostMin n = 0xC0A80101 \<and> HostMax n = 0xC0A80101 \<and> HostsCount n = 1"
    using CalculateNetwork_host_fields [OF parse_192_168_1_1 netmask_32] by auto
  show ?thesis
    by (intro conjI parse_192_168_1_1 netmask_24 netmask_31 netmask_32 a b c)
qed

theorem CalculateNetwork_wildcard_identities_witness:
  "CalculateNetwork ''192.168.1.1'' ''24'' =
     Inr \<lparr> Address = 0xC0A80101, Netmask = 0xFFFFFF00, BitCount = 24, Broadcast = 0xC0A801FF,
           NetworkID = 0xC0A80100, HostMin = 0xC0A80101, HostMax = 0xC0A801FE,
           HostsCount = 254, Class = ''C'' \<rparr>
   \<and> (0xC0A80100 :: u32) AND GetWildcardMask 0xFFFFFF00 = 0
   \<and> (0xC0A801FF :: u32) = 0xC0A80100 OR GetWildcardMask 0xFFFFFF00"
  using CalculateNetwork_wildcard_identities [OF calc_24] by (simp add: calc_24)

lemma atoi_dotted_1: "Atoi ''255.0.255.0'' = None" by code_simp
lemma parse_dotted_1: "ParseIPv4 ''255.0.255.0'' = Inr 0xFF00FF00" by code_simp
lemma atoi_dotted_2: "Atoi ''255.255.255.0'' = None" by code_simp
lemma parse_dotted_2: "ParseIPv4 ''255.255.255.0'' = Inr 0xFFFFFF00" by code_simp

lemma not_contiguous_FF00FF00: "\<not> contiguous_mask 0xFF00FF00"
  unfolding isValidNetmask_iff [symmetric] by code_simp

lemma contiguous_FFFFFF00: "contiguous_mask 0xFFFFFF00"
  unfolding isValidNetmask_iff [symmetric] by code_simp

lemma leading_ones_FFFFFF00: "leading_ones 0xFFFFFF00 = 24" by code_simp
lemma trim_dotted_1: "TrimPrefix_slash ''255.0.255.0'' = ''255.0.255.0''" by simp
lemma trim_dotted_2: "TrimPrefix_slash ''/255.255.255.0'' = ''255.255.255.0''" by simp

theorem ParseNetmask_dotted_quad_witness:
  "Atoi (TrimPrefix_slash ''255.0.255.0'') = None
   \<and> ParseIPv4 (TrimPrefix_slash ''255.0.255.0'') = Inr 0xFF00FF00
   \<and> ParseNetmask ''255.0.255.0'' = Inl (NetmaskNotContiguous ''255.0.255.0'')
   \<and> Atoi (TrimPrefix_slash ''/255.255.255.0'') = None
   \<and> ParseIPv4 (TrimPrefix_slash ''/255.255.255.0'') = Inr 0xFFFFFF00
   \<and> ParseNetmask ''/255.255.255.0'' = Inr (0xFFFFFF00, 24)"
proof -
  have a: "Atoi (TrimPrefix_slash ''255.0.255.0'') = None"
    unfolding trim_dotted_1 by (rule atoi_dotted_1)
  have b: "ParseIPv4 (TrimPrefix_slash ''255.0.255.0'') = Inr 0xFF00FF00"
    unfolding trim_dotted_1 by (rule parse_dotted_1)
  have c: "Atoi (TrimPrefix_slash ''/255.255.255.0'') = None"
    unfolding trim_dotted_2 by (rule atoi_dotted_2)
  have d: "ParseIPv4 (TrimPrefix_slash ''/255.255.255.0'') = Inr 0xFFFFFF00"
    unfolding trim_dotted_2 by (rule parse_dotted_2)
  have e: "ParseNetmask ''255.0.255.0'' = Inl (NetmaskNotContiguous ''255.0.255.0'')"
    unfolding ParseNetmask_dotted_quad [OF a b] trim_dotted_1
    using not_contiguous_FF00FF00 by (rule if_not_P)
  have f: "ParseNetmask ''/255.255.255.0'' = Inr (0xFFFFFF00, 24)"
    unfolding ParseNetmask_dotted_quad [OF c d] leading_ones_FFFFFF00
    using contiguous_FFFFFF00 by simp
  show ?thesis by (intro conjI a b c d e f)
qed

section \<open>SplitNetwork: the doubling loop\<close>

lemma hostsNeeded_loop_Some_D:
  assumes "hostsNeeded_loop h sz = Some y"
  shows "sz = 0xFFFFFFFF \<longrightarrow> h = 1"
proof (rule hostsNeeded_loop.raw_induct [where P = "\<lambda>h sz y. sz = 0xFFFFFFFF \<longrightarrow> h = 1", OF _ assms])
  fix f :: "u32 \<Rightarrow> u32 \<Rightarrow> u32 option" and h sz y :: u32
  assume IH: "\<And>h sz y. f h sz = Some y \<Longrightarrow> sz = 0xFFFFFFFF \<longrightarrow> h = 1"
    and step: "(if h - 2 < sz then f (h * 2) sz else Some h) = Some y"
  show "sz = 0xFFFFFFFF \<longrightarrow> h = 1"
  proof (cases "h - 2 < sz")
    case True
    with step have "f (h * 2) sz = Some y" by simp
    then have "sz = 0xFFFFFFFF \<longrightarrow> h * 2 = 1" by (rule IH)
    moreover have "h * 2 \<noteq> 1"
    proof
      assume "h * 2 = 1"
      then have "bit (h * 2) 0 = bit (1::u32) 0" by simp
      then show False by (simp add: bit_0)
    qed
    ultimately show ?thesis by simp
  next
    case False
    show ?thesis
    proof
      assume "sz = 0xFFFFFFFF"
      with False have "\<not> unat (h - 2) < 4294967295" by (simp add: word_less_nat_alt)
      moreover have "unat (h - 2) < 2 ^ 32" using unsigned_less [of "h - 2"] by simp
      ultimately have "unat (h - 2) = unat (0xFFFFFFFF :: u32)" by simp
      then have "h - 2 = 0xFFFFFFFF" by (simp only: word_unat_eq_iff)
      then have "h = 0xFFFFFFFF + 2" by (simp add: algebra_simps)
      then show "h = 1" by simp
    qed
  qed
qed

lemma hostsNeeded_loop_diverges: "hostsNeeded_loop 4 0xFFFFFFFF = None"
proof (cases "hostsNeeded_loop 4 (0xFFFFFFFF :: u32)")
  case None
  then show ?thesis .
next
  case (Some y)
  then have "(4 :: u32) = 1" using hostsNeeded_loop_Some_D by blast
  then show ?thesis by simp
qed

lemma unat_neq_max: "sz \<noteq> 0xFFFFFFFF \<Longrightarrow> unat sz < 4294967295" for sz :: u32
proof -
  assume a: "sz \<noteq> 0xFFFFFFFF"
  have "unat sz < 2 ^ 32" using unsigned_less [of sz] by simp
  moreover have "unat sz \<noteq> 4294967295"
  proof
    assume "unat sz = 4294967295"
    then have "unat sz = unat (0xFFFFFFFF :: u32)" by simp
    then have "sz = 0xFFFFFFFF" by (simp only: word_unat_eq_iff)
    with a show False by simp
  qed
  ultimately show ?thesis by simp
qed

lemma hostsNeeded_loop_zero: "sz \<noteq> 0xFFFFFFFF \<Longrightarrow> hostsNeeded_loop 0 sz = Some 0"
proof -
  assume "sz \<noteq> 0xFFFFFFFF"
  then have "unat sz < 4294967295" by (rule unat_neq_max)
  then have "\<not> (0 - 2 :: u32) < sz"
    by (simp add: word_less_nat_alt)
  then show ?thesis by (subst hostsNeeded_loop.simps) simp
qed

lemma two_pow_32: "(2 :: u32) ^ 32 = 0"
  by simp

lemma hostsNeeded_loop_pow:
  "sz \<noteq> 0xFFFFFFFF \<Longrightarrow> j \<le> 32 \<Longrightarrow> \<exists>y. hostsNeeded_loop (2 ^ (32 - j)) sz = Some y"
proof (induction j)
  case 0
  then show ?case using hostsNeeded_loop_zero [of sz] by (simp only: two_pow_32 diff_zero) blast
next
  case (Suc j)
  then obtain y where y: "hostsNeeded_loop (2 ^ (32 - j)) sz = Some y" by auto
  from Suc(3) have "32 - j = Suc (32 - Suc j)" by simp
  then have "(2::u32) ^ (32 - Suc j) * 2 = 2 ^ (32 - j)"
    by (simp only: power_Suc2)
  with y show ?case by (subst hostsNeeded_loop.simps) simp
qed

lemma hostsNeeded_loop_terminates:
  "sz \<noteq> 0xFFFFFFFF \<Longrightarrow> \<exists>y. hostsNeeded_loop 4 sz = Some y"
  using hostsNeeded_loop_pow [of sz 30] by simp


lemma hostsNeeded_loop_Some_iff:
  "(\<exists>y. hostsNeeded_loop 4 sz = Some y) = (sz \<noteq> 0xFFFFFFFF)"
proof
  assume "\<exists>y. hostsNeeded_loop 4 sz = Some y"
  then show "sz \<noteq> 0xFFFFFFFF" using hostsNeeded_loop_diverges by auto
next
  assume "sz \<noteq> 0xFFFFFFFF"
  then show "\<exists>y. hostsNeeded_loop 4 sz = Some y" by (rule hostsNeeded_loop_terminates)
qed

lemma None_iff_from_Some_iff: "(\<exists>y. f = Some y) = (\<not> P) \<Longrightarrow> (f = None) = P"
  by (cases f) auto

lemma hostsNeeded_loop_None_iff:
  "(hostsNeeded_loop 4 sz = None) = (sz = 0xFFFFFFFF)"
  by (rule None_iff_from_Some_iff) (rule hostsNeeded_loop_Some_iff)

lemma sizes_loop_None_gen:
  assumes "\<And>s. (hostsNeeded_loop 4 (word_of_int s) = None) = Q s"
  shows "(sizes_loop sizes hostCounts totalRequired = None) = (\<exists>s\<in>set sizes. Q s)"
proof (induction sizes arbitrary: hostCounts totalRequired)
  case Nil
  show ?case by simp
next
  case (Cons s sizes)
  show ?case
  proof (cases "hostsNeeded_loop 4 (word_of_int s)")
    case None
    moreover from None have "Q s" by (simp add: assms)
    ultimately show ?thesis by simp
  next
    case (Some y)
    then have "hostsNeeded_loop 4 (word_of_int s) \<noteq> None" by simp
    then have "\<not> Q s" by (simp add: assms)
    with Some show ?thesis by (simp add: Cons.IH)
  qed
qed

lemma sizes_loop_None_iff:
  "(sizes_loop sizes hostCounts totalRequired = None)
     = (\<exists>s\<in>set sizes. (word_of_int s :: u32) = 0xFFFFFFFF)"
  by (rule sizes_loop_None_gen) (rule hostsNeeded_loop_None_iff)

lemma SplitNetwork_None_iff:
  assumes "CalculateNetwork networkStr maskStr = Inr network"
  shows "(SplitNetwork networkStr maskStr sizes = None)
           = (\<exists>s\<in>set sizes. (word_of_int s :: u32) = 0xFFFFFFFF)"
proof (cases "sizes_loop sizes [] 0")
  case None
  then have "SplitNetwork networkStr maskStr sizes = None"
    using assms by (simp add: SplitNetwork_def)
  moreover from None have "\<exists>s\<in>set sizes. (word_of_int s :: u32) = 0xFFFFFFFF"
    by (simp only: sizes_loop_None_iff)
  ultimately show ?thesis by simp
next
  case (Some r)
  then have "SplitNetwork networkStr maskStr sizes \<noteq> None"
    using assms by (simp add: SplitNetwork_def Let_def split: prod.splits sum.splits)
  moreover from Some have "\<not> (\<exists>s\<in>set sizes. (word_of_int s :: u32) = 0xFFFFFFFF)"
    using sizes_loop_None_iff [of sizes "[]" 0] by simp
  ultimately show ?thesis by simp
qed

text \<open>
  C10. The doubling loop of \<open>SplitNetwork\<close>, started at 4 on the \<open>uint32\<close> conversion of a
  requested size, returns exactly when that conversion is not \<open>2^32 - 1\<close>; and for a base
  network that \<open>CalculateNetwork\<close> accepts, \<open>SplitNetwork\<close> does not return exactly when
  some requested size converts to \<open>2^32 - 1\<close> (as the request \<open>-1\<close> does).
\<close>

theorem hostsNeeded_doubling_termination:
  "((\<exists>y. hostsNeeded_loop 4 (word_of_int sz) = Some y)
       \<longleftrightarrow> (word_of_int sz :: u32) \<noteq> 0xFFFFFFFF)
   \<and> (CalculateNetwork networkStr maskStr = Inr network \<longrightarrow>
        (SplitNetwork networkStr maskStr sizes = None)
          = (\<exists>s\<in>set sizes. (word_of_int s :: u32) = 0xFFFFFFFF))"
proof (intro conjI impI)
  show "(\<exists>y. hostsNeeded_loop 4 (word_of_int sz) = Some y)
          \<longleftrightarrow> (word_of_int sz :: u32) \<noteq> 0xFFFFFFFF"
    by (rule hostsNeeded_loop_Some_iff)
next
  assume "CalculateNetwork networkStr maskStr = Inr network"
  then show "(SplitNetwork networkStr maskStr sizes = None)
          = (\<exists>s\<in>set sizes. (word_of_int s :: u32) = 0xFFFFFFFF)"
    by (rule SplitNetwork_None_iff)
qed




theorem hostsNeeded_doubling_termination_witness:
  "hostsNeeded_loop 4 (word_of_int (- 1)) = None
   \<and> (\<exists>y. hostsNeeded_loop 4 (word_of_int 100) = Some y)
   \<and> CalculateNetwork ''192.168.1.1'' ''24'' =
     Inr \<lparr> Address = 0xC0A80101, Netmask = 0xFFFFFF00, BitCount = 24, Broadcast = 0xC0A801FF,
           NetworkID = 0xC0A80100, HostMin = 0xC0A80101, HostMax = 0xC0A801FE,
           HostsCount = 254, Class = ''C'' \<rparr>
   \<and> SplitNetwork ''192.168.1.1'' ''24'' [- 1] = None
   \<and> SplitNetwork ''192.168.1.1'' ''24'' [100] \<noteq> None"
proof -
  have a: "(word_of_int (- 1) :: u32) = 0xFFFFFFFF" by simp
  have b: "(word_of_int 100 :: u32) \<noteq> 0xFFFFFFFF" by simp
  have c: "\<exists>s\<in>set [- 1 :: int]. (word_of_int s :: u32) = 0xFFFFFFFF"
    by (rule bexI [where x = "- 1"], rule a) simp
  have d: "\<not> (\<exists>s\<in>set [100 :: int]. (word_of_int s :: u32) = 0xFFFFFFFF)" by simp
  note t1 = hostsNeeded_doubling_termination [of "- 1" "''192.168.1.1''" "''24''" _ "[- 1]"]
  note t2 = hostsNeeded_doubling_termination [of 100 "''192.168.1.1''" "''24''" _ "[100]"]
  have 1: "hostsNeeded_loop 4 (word_of_int (- 1)) = None"
    by (rule iffD2 [OF None_iff_from_Some_iff [OF t1 [THEN conjunct1]] a])
  have 2: "\<exists>y. hostsNeeded_loop 4 (word_of_int 100) = Some y"
    by (rule iffD2 [OF t2 [THEN conjunct1] b])
  have 3: "SplitNetwork ''192.168.1.1'' ''24'' [- 1] = None"
    by (rule iffD2 [OF t1 [THEN conjunct2, THEN mp, OF calc_24] c])
  have 4: "SplitNetwork ''192.168.1.1'' ''24'' [100] \<noteq> None"
  proof
    assume "SplitNetwork ''192.168.1.1'' ''24'' [100] = None"
    then have "\<exists>s\<in>set [100 :: int]. (word_of_int s :: u32) = 0xFFFFFFFF"
      by (rule iffD1 [OF t2 [THEN conjunct2, THEN mp, OF calc_24]])
    with d show False by (rule notE)
  qed
  show ?thesis by (intro conjI 1 2 3 4 calc_24)
qed

section \<open>Deaggregate: the inner loop\<close>

lemma all_ones_minus_1: "(0xFFFFFFFF :: u32) = - 1"
  by simp

lemma push_bit_all_ones: "push_bit n (0xFFFFFFFF :: u32) = NOT (mask n)"
  unfolding all_ones_minus_1 by (rule push_bit_minus_one_eq_not_mask)

lemma unat_mask_u32: "n \<le> 32 \<Longrightarrow> unat (mask n :: u32) = 2 ^ n - 1"
proof -
  assume n: "n \<le> 32"
  have "uint (mask n :: u32) = mask (min LENGTH(32) n)" by (rule uint_mask_eq)
  also from n have "min LENGTH(32) n = n" by simp
  finally have "uint (mask n :: u32) = 2 ^ n - 1" by (simp only: mask_int_def)
  then have "unat (mask n :: u32) = nat (2 ^ n - 1)"
    by (simp only: unat_eq_nat_uint)
  then show ?thesis by (simp add: nat_diff_distrib nat_power_eq)
qed

lemma and_not_mask_eq_iff: "(x AND NOT (mask n) = x) = (x AND mask n = 0)" for x :: u32
proof
  assume a: "x AND NOT (mask n) = x"
  have "x AND mask n = (x AND NOT (mask n)) AND mask n" by (simp only: a)
  also have "\<dots> = 0" by (rule bit_word_eqI) (simp add: bit_simps)
  finally show "x AND mask n = 0" .
next
  assume a: "x AND mask n = 0"
  have "x = (x AND NOT (mask n)) OR (x AND mask n)"
    by (rule bit_word_eqI) (auto simp add: bit_simps)
  with a show "x AND NOT (mask n) = x" by simp
qed

lemma and_mask_eq_0_iff_dvd: "(x AND mask n = 0) = (2 ^ n dvd unat x)" for x :: u32
proof -
  have "(x AND mask n = 0) = (take_bit n x = 0)" by (simp only: take_bit_eq_mask)
  also have "\<dots> = (unat (take_bit n x) = 0)" by (simp add: unat_eq_0)
  also have "\<dots> = (take_bit n (unat x) = 0)" by (simp add: unsigned_take_bit_eq)
  also have "\<dots> = (2 ^ n dvd unat x)" by (rule take_bit_eq_0_iff)
  finally show ?thesis .
qed

lemma aligned_no_overflow:
  assumes "2 ^ n dvd (a :: nat)" "a < 2 ^ 32" "n \<le> 32"
  shows "a + 2 ^ n \<le> 2 ^ 32"
proof -
  from assms(1) obtain k where k: "a = 2 ^ n * k" by (auto simp: dvd_def)
  from assms(3) have e: "(2::nat) ^ 32 = 2 ^ n * 2 ^ (32 - n)"
    by (simp flip: power_add)
  from assms(2) k e have "2 ^ n * k < 2 ^ n * (2::nat) ^ (32 - n)" by simp
  then have "k < 2 ^ (32 - n)" by simp
  then have "Suc k \<le> 2 ^ (32 - n)" by simp
  then have "2 ^ n * Suc k \<le> 2 ^ n * (2::nat) ^ (32 - n)" by (rule mult_le_mono2)
  with k e show ?thesis by simp
qed

lemma unat_aligned_or_mask:
  fixes x :: u32
  assumes "x AND mask n = 0" "n \<le> 32"
  shows "unat (x OR mask n) = unat x + 2 ^ n - 1"
proof -
  from assms(1) have d: "2 ^ n dvd unat x" by (simp only: and_mask_eq_0_iff_dvd)
  have "unat x < 2 ^ 32" using unsigned_less [of x] by simp
  with d assms(2) have "unat x + 2 ^ n \<le> 2 ^ 32" by (intro aligned_no_overflow)
  then have "unat x + unat (mask n :: u32) < 2 ^ LENGTH(32)"
    using assms(2) by (simp add: unat_mask_u32)
  then have "unat (x + mask n) = unat x + unat (mask n :: u32)"
    by (simp only: unat_add_lem)
  moreover have "x + mask n = x OR mask n"
    using assms(1) by (rule disjunctive_add_eq_or)
  ultimately show ?thesis using assms(2) by (simp add: unat_mask_u32)
qed

text \<open>The test made at prefix \<open>q\<close> by the inner loop of \<open>Deaggregate\<close>.\<close>

lemma prefix_test_iff:
  fixes start endip :: u32
  assumes "0 \<le> q" "q < 32"
  shows "(\<not> (start AND push_bit (nat (32 - q)) 0xFFFFFFFF) OR NOT (push_bit (nat (32 - q)) 0xFFFFFFFF) > endip
          \<and> start AND push_bit (nat (32 - q)) 0xFFFFFFFF = start)
         = cidr_fits start endip q"
proof -
  define n where "n = nat (32 - q)"
  from assms have n: "n \<le> 32" by (simp add: n_def)
  have m: "push_bit n (0xFFFFFFFF :: u32) = NOT (mask n)" by (rule push_bit_all_ones)
  show ?thesis
  proof (cases "start AND NOT (mask n) = start")
    case True
    then have z: "start AND mask n = 0" by (simp only: and_not_mask_eq_iff)
    then have d: "2 ^ n dvd unat start" by (simp only: and_mask_eq_0_iff_dvd)
    have "unat (start OR mask n) = unat start + 2 ^ n - 1"
      using z n by (rule unat_aligned_or_mask)
    then have "(\<not> start OR mask n > endip) = (unat start + 2 ^ n - 1 \<le> unat endip)"
      by (simp add: word_less_nat_alt not_less)
    with True d show ?thesis
      unfolding cidr_fits_def n_def [symmetric] m by simp
  next
    case False
    then have "\<not> 2 ^ n dvd unat start"
      by (simp add: and_not_mask_eq_iff and_mask_eq_0_iff_dvd)
    with False show ?thesis
      unfolding cidr_fits_def n_def [symmetric] m by simp
  qed
qed

lemma if_chain_merge:
  "(if a then (if b then x else if c then y else x) else z)
     = (if a then (if \<not> b \<and> c then y else x) else z)"
  by simp

lemma Deaggregate_prefix_loop_unfold:
  "Deaggregate_prefix_loop prefix start endip =
     (if prefix < 32 then
        (if \<not> (start AND push_bit (nat (32 - prefix)) 0xFFFFFFFF)
                 OR NOT (push_bit (nat (32 - prefix)) 0xFFFFFFFF) > endip
            \<and> start AND push_bit (nat (32 - prefix)) 0xFFFFFFFF = start
         then prefix else Deaggregate_prefix_loop (prefix + 1) start endip)
      else prefix)"
  by (subst Deaggregate_prefix_loop.simps, unfold Let_def) (rule if_chain_merge)

lemma Deaggregate_prefix_loop_step:
  "0 \<le> prefix \<Longrightarrow> Deaggregate_prefix_loop prefix start endip =
     (if prefix < 32 then
        (if cidr_fits start endip prefix then prefix
         else Deaggregate_prefix_loop (prefix + 1) start endip)
      else prefix)"
  by (subst Deaggregate_prefix_loop_unfold) (simp add: prefix_test_iff)

lemma Deaggregate_prefix_loop_spec:
  assumes "0 \<le> p0" "p0 \<le> 32"
  shows "p0 \<le> Deaggregate_prefix_loop p0 start endip
       \<and> Deaggregate_prefix_loop p0 start endip \<le> 32
       \<and> (Deaggregate_prefix_loop p0 start endip < 32 \<longrightarrow>
             cidr_fits start endip (Deaggregate_prefix_loop p0 start endip))
       \<and> (\<forall>q. p0 \<le> q \<and> q < Deaggregate_prefix_loop p0 start endip \<longrightarrow>
             \<not> cidr_fits start endip q)"
  using assms
proof (induction "nat (32 - p0)" arbitrary: p0)
  case 0
  then have "p0 = 32" by simp
  then have "Deaggregate_prefix_loop p0 start endip = 32"
    by (simp add: Deaggregate_prefix_loop_step)
  with \<open>p0 = 32\<close> show ?case by auto
next
  case (Suc k)
  then have lt: "p0 < 32" by simp
  show ?case
  proof (cases "cidr_fits start endip p0")
    case True
    with lt Suc.prems have "Deaggregate_prefix_loop p0 start endip = p0"
      by (simp add: Deaggregate_prefix_loop_step)
    with lt True show ?thesis by auto
  next
    case False
    with lt Suc.prems have e: "Deaggregate_prefix_loop p0 start endip
             = Deaggregate_prefix_loop (p0 + 1) start endip"
      by (simp add: Deaggregate_prefix_loop_step)
    from Suc(2) have k: "k = nat (32 - (p0 + 1))" by simp
    from lt Suc.prems have r: "0 \<le> p0 + 1" "p0 + 1 \<le> 32" by simp_all
    note IH = Suc(1) [OF k r]
    define r where "r = Deaggregate_prefix_loop (p0 + 1) start endip"
    from IH have 1: "p0 + 1 \<le> r" and 2: "r \<le> 32"
      and 3: "r < 32 \<longrightarrow> cidr_fits start endip r"
      and 4: "\<forall>q. p0 + 1 \<le> q \<and> q < r \<longrightarrow> \<not> cidr_fits start endip q"
      unfolding r_def by blast+
    have "\<forall>q. p0 \<le> q \<and> q < r \<longrightarrow> \<not> cidr_fits start endip q"
    proof (intro allI impI)
      fix q assume q: "p0 \<le> q \<and> q < r"
      show "\<not> cidr_fits start endip q"
      proof (cases "q = p0")
        case True
        with False show ?thesis by simp
      next
        case False
        with q have "p0 + 1 \<le> q \<and> q < r" by simp
        with 4 show ?thesis by blast
      qed
    qed
    with 1 2 3 show ?thesis unfolding e r_def [symmetric] by simp
  qed
qed

lemma Deaggregate_prefix_loop_fits:
  assumes "start \<le> endip"
  shows "0 \<le> Deaggregate_prefix_loop 0 start endip
       \<and> Deaggregate_prefix_loop 0 start endip \<le> 32
       \<and> cidr_fits start endip (Deaggregate_prefix_loop 0 start endip)
       \<and> (\<forall>q. 0 \<le> q \<and> q < Deaggregate_prefix_loop 0 start endip \<longrightarrow>
             \<not> cidr_fits start endip q)"
proof -
  note s = Deaggregate_prefix_loop_spec [of 0 start endip]
  define r where "r = Deaggregate_prefix_loop 0 start endip"
  from s have 1: "0 \<le> r" and 2: "r \<le> 32" and 3: "r < 32 \<longrightarrow> cidr_fits start endip r"
    and 4: "\<forall>q. 0 \<le> q \<and> q < r \<longrightarrow> \<not> cidr_fits start endip q"
    unfolding r_def by simp_all
  have "cidr_fits start endip r"
  proof (cases "r < 32")
    case True
    with 3 show ?thesis by simp
  next
    case False
    with 2 have "r = 32" by simp
    with assms show ?thesis by (simp add: cidr_fits_def word_le_nat_alt)
  qed
  with 1 2 4 show ?thesis unfolding r_def by simp
qed

section \<open>Deaggregate: the main loop\<close>

lemma Deaggregate_loop_Some_D:
  assumes "Deaggregate_loop start endip result = Some y"
  shows "endip \<noteq> - 1"
proof (rule Deaggregate_loop.raw_induct [where P = "\<lambda>start endip result y. endip \<noteq> - 1", OF _ assms])
  fix f :: "u32 \<Rightarrow> u32 \<Rightarrow> block list \<Rightarrow> block list option"
    and start endip :: u32 and result y :: "block list"
  assume IH: "\<And>start endip result y. f start endip result = Some y \<Longrightarrow> endip \<noteq> - 1"
    and step: "(if start \<le> endip then
        (let prefix = Deaggregate_prefix_loop 0 start endip
         in f (start + push_bit (nat (32 - prefix)) 1) endip (result @ [(start, prefix)]))
      else Some result) = Some y"
  show "endip \<noteq> - 1"
  proof (cases "start \<le> endip")
    case True
    with step have "f (start + push_bit (nat (32 - Deaggregate_prefix_loop 0 start endip)) 1)
        endip (result @ [(start, Deaggregate_prefix_loop 0 start endip)]) = Some y"
      by (simp add: Let_def)
    then show ?thesis by (rule IH)
  next
    case False
    show ?thesis
    proof
      assume "endip = - 1"
      then have "start \<le> endip" by simp
      with False show False by simp
    qed
  qed
qed


lemma unat_two_power: "n < 32 \<Longrightarrow> unat (2 ^ n :: u32) = 2 ^ n"
proof -
  assume n: "n < 32"
  have "(2 ^ n :: u32) = of_nat (2 ^ n)" by simp
  then have "unat (2 ^ n :: u32) = 2 ^ n mod 2 ^ LENGTH(32)" by (simp only: unat_of_nat)
  moreover from n have "(2::nat) ^ n < 2 ^ 32" by (rule power_strict_increasing) simp
  ultimately show ?thesis by simp
qed

lemma unat_lt_max: "endip \<noteq> - 1 \<Longrightarrow> unat endip < 2 ^ 32 - 1" for endip :: u32
proof -
  assume "endip \<noteq> - 1"
  then have "endip \<noteq> 0xFFFFFFFF" unfolding all_ones_minus_1 .
  then have "unat endip < 4294967295" by (rule unat_neq_max)
  then show ?thesis by simp
qed

text \<open>One iteration of the main loop when the end is below the top address.\<close>

lemma Deaggregate_advance:
  fixes start endip :: u32
  assumes "start \<le> endip" "endip \<noteq> - 1" "0 \<le> p" "p \<le> 32" "cidr_fits start endip p"
  shows "start + push_bit (nat (32 - p)) 1 = start + 2 ^ nat (32 - p)"
    and "unat (start + 2 ^ nat (32 - p)) = unat start + 2 ^ nat (32 - p)"
    and "unat start + 2 ^ nat (32 - p) \<le> unat endip + 1"
proof -
  define n where "n = nat (32 - p)"
  from assms(5) have f: "unat start + 2 ^ n - 1 \<le> unat endip"
    by (simp add: cidr_fits_def n_def)
  from assms(2) have e: "unat endip < 2 ^ 32 - 1" by (rule unat_lt_max)
  have pos: "(2::nat) ^ n > 0" by simp
  from f pos show le: "unat start + 2 ^ n \<le> unat endip + 1" by simp
  with e have lt: "unat start + 2 ^ n < 2 ^ 32" by simp
  then have "(2::nat) ^ n < 2 ^ 32" by linarith
  then have n32: "n < 32" by (rule power_less_imp_less_exp [where a = "2::nat", rotated]) simp
  then have u: "unat (2 ^ n :: u32) = 2 ^ n" by (rule unat_two_power)
  with lt have "unat start + unat (2 ^ n :: u32) < 2 ^ LENGTH(32)" by simp
  then have "unat (start + 2 ^ n) = unat start + unat (2 ^ n :: u32)"
    by (simp only: unat_add_lem)
  with u show "unat (start + 2 ^ n) = unat start + 2 ^ n" by simp
  show "start + push_bit n 1 = start + 2 ^ n" by simp
qed

lemma Deaggregate_loop_result:
  assumes "endip \<noteq> - 1"
  shows "\<exists>bs. Deaggregate_loop start endip result = Some (result @ bs)
              \<and> greedy_cover start endip bs"
proof (induction "unat endip + 1 - unat start" arbitrary: start result rule: less_induct)
  case less
  show ?case
  proof (cases "start \<le> endip")
    case False
    then have "Deaggregate_loop start endip result = Some result"
      by (subst Deaggregate_loop.simps) simp
    moreover from False have "greedy_cover start endip []"
      by (intro greedy_cover.stop) simp
    ultimately show ?thesis by simp
  next
    case True
    define p where "p = Deaggregate_prefix_loop 0 start endip"
    from Deaggregate_prefix_loop_fits [OF True]
    have p: "0 \<le> p" "p \<le> 32" "cidr_fits start endip p"
      "\<forall>q. 0 \<le> q \<and> q < p \<longrightarrow> \<not> cidr_fits start endip q"
      unfolding p_def by simp_all
    note adv = Deaggregate_advance [OF True assms p(1,2,3)]
    define start' where "start' = start + 2 ^ nat (32 - p)"
    have "(2::nat) ^ nat (32 - p) > 0" by simp
    then have "unat endip + 1 - unat start' < unat endip + 1 - unat start"
      using adv(2,3) unfolding start'_def by linarith
    from less [OF this, of "result @ [(start, p)]"]
    obtain bs where bs: "Deaggregate_loop start' endip (result @ [(start, p)])
                        = Some ((result @ [(start, p)]) @ bs)"
      "greedy_cover start' endip bs" by blast
    have "Deaggregate_loop start endip result
            = Deaggregate_loop start' endip (result @ [(start, p)])"
      using True adv(1)
      by (subst Deaggregate_loop.simps) (simp add: Let_def p_def start'_def)
    with bs(1) have "Deaggregate_loop start endip result = Some (result @ ((start, p) # bs))"
      by simp
    moreover have "greedy_cover start endip ((start, p) # bs)"
      using True p bs(2) unfolding start'_def by (intro greedy_cover.emit)
    ultimately show ?thesis by blast
  qed
qed

lemma Deaggregate_loop_Some_iff:
  "(\<exists>r. Deaggregate_loop start endip result = Some r) = (endip \<noteq> - 1)"
  using Deaggregate_loop_Some_D Deaggregate_loop_result by blast

lemma greedy_cover_props:
  assumes "greedy_cover start endip bs" "endip \<noteq> - 1" "unat start \<le> unat endip + 1"
  shows "(\<Union>b\<in>set bs. block_addrs b) = {unat start .. unat endip}
       \<and> (\<forall>b\<in>set bs. block_aligned b \<and> 0 \<le> snd b \<and> snd b \<le> 32)
       \<and> sorted_wrt (\<lambda>b c. \<forall>x\<in>block_addrs b. \<forall>y\<in>block_addrs c. x < y) bs
       \<and> (\<forall>b\<in>set bs. \<forall>q. 0 \<le> q \<and> q < snd b \<longrightarrow> \<not> cidr_fits (fst b) endip q)"
  using assms
proof (induction rule: greedy_cover.induct)
  case (stop endip start)
  then have "unat endip < unat start" by (simp add: word_less_nat_alt)
  then show ?case by simp
next
  case (emit start endip p bs)
  note adv = Deaggregate_advance [OF emit(1) emit.prems(1) emit(2,3,4)]
  define n where "n = nat (32 - p)"
  define s' where "s' = unat start + 2 ^ n"
  have pos: "(2::nat) ^ n > 0" by simp
  from adv(2,3) have u: "unat (start + 2 ^ nat (32 - p)) = s'" and le: "s' \<le> unat endip + 1"
    unfolding s'_def n_def by simp_all
  from emit.IH [OF emit.prems(1)] le u
  have IH1: "(\<Union>b\<in>set bs. block_addrs b) = {s' .. unat endip}"
    and IH2: "\<forall>b\<in>set bs. block_aligned b \<and> 0 \<le> snd b \<and> snd b \<le> 32"
    and IH3: "sorted_wrt (\<lambda>b c. \<forall>x\<in>block_addrs b. \<forall>y\<in>block_addrs c. x < y) bs"
    and IH4: "\<forall>b\<in>set bs. \<forall>q. 0 \<le> q \<and> q < snd b \<longrightarrow> \<not> cidr_fits (fst b) endip q"
    by simp_all
  have hd: "block_addrs (start, p) = {unat start ..< s'}"
    by (simp add: block_addrs_def s'_def n_def)
  have "{unat start ..< s'} \<union> {s' .. unat endip} = {unat start .. unat endip}"
    using pos le unfolding s'_def by auto
  with IH1 hd have 1: "(\<Union>b\<in>set ((start, p) # bs). block_addrs b) = {unat start .. unat endip}"
    by simp
  from emit(4) have "block_aligned (start, p)"
    by (simp add: cidr_fits_def block_aligned_def)
  with IH2 emit(2,3) have 2: "\<forall>b\<in>set ((start, p) # bs). block_aligned b \<and> 0 \<le> snd b \<and> snd b \<le> 32"
    by simp
  have "\<forall>c\<in>set bs. \<forall>x\<in>block_addrs (start, p). \<forall>y\<in>block_addrs c. x < y"
  proof (intro ballI)
    fix c x y assume c: "c \<in> set bs" and x: "x \<in> block_addrs (start, p)" and y: "y \<in> block_addrs c"
    from c y have "y \<in> (\<Union>b\<in>set bs. block_addrs b)" by blast
    with IH1 have "s' \<le> y" by simp
    moreover from x hd have "x < s'" by simp
    ultimately show "x < y" by simp
  qed
  with IH3 have 3: "sorted_wrt (\<lambda>b c. \<forall>x\<in>block_addrs b. \<forall>y\<in>block_addrs c. x < y) ((start, p) # bs)"
    by simp
  from IH4 emit(5) have 4: "\<forall>b\<in>set ((start, p) # bs). \<forall>q. 0 \<le> q \<and> q < snd b \<longrightarrow> \<not> cidr_fits (fst b) endip q"
    by simp
  from 1 2 3 4 show ?case by blast
qed

lemma Deaggregate_result:
  assumes "ParseIPv4 startStr = Inr start" "ParseIPv4 endStr = Inr endip"
    "start \<le> endip" "endip \<noteq> - 1"
  shows "\<exists>bs. Deaggregate startStr endStr = Some (Inr (map block_string bs))
              \<and> Deaggregate_loop start endip [] = Some bs
              \<and> greedy_cover start endip bs"
proof -
  from Deaggregate_loop_result [OF assms(4), of start "[]"]
  obtain bs where bs: "Deaggregate_loop start endip [] = Some bs" "greedy_cover start endip bs"
    by auto
  from assms(3) have "\<not> endip < start" by simp
  with assms(1,2) bs(1) have "Deaggregate startStr endStr = Some (Inr (map block_string bs))"
    by (simp add: Deaggregate_def)
  with bs show ?thesis by blast
qed

lemma Deaggregate_None_iff:
  assumes "ParseIPv4 startStr = Inr start" "ParseIPv4 endStr = Inr endip" "start \<le> endip"
  shows "(Deaggregate startStr endStr = None) = (endip = - 1)"
proof -
  from assms(3) have "\<not> endip < start" by simp
  with assms(1,2) have "Deaggregate startStr endStr
      = map_option (\<lambda>result. Inr (map block_string result)) (Deaggregate_loop start endip [])"
    by (simp add: Deaggregate_def)
  then have "(Deaggregate startStr endStr = None) = (Deaggregate_loop start endip [] = None)"
    by simp
  also have "\<dots> = (\<not> (\<exists>r. Deaggregate_loop start endip [] = Some r))" by simp
  also have "\<dots> = (endip = - 1)" by (simp only: Deaggregate_loop_Some_iff not_not)
  finally show ?thesis .
qed

section \<open>Deaggregate: termination of the main loop\<close>

lemma parse_0_0_0_0: "ParseIPv4 ''0.0.0.0'' = Inr 0" by code_simp
lemma parse_255_255_255_255: "ParseIPv4 ''255.255.255.255'' = Inr 0xFFFFFFFF" by code_simp
lemma parse_10_0_0_0: "ParseIPv4 ''10.0.0.0'' = Inr 0x0A000000" by code_simp
lemma parse_10_0_0_255: "ParseIPv4 ''10.0.0.255'' = Inr 0x0A0000FF" by code_simp

lemma Deaggregate_loop_top_again:
  "Deaggregate_loop cursor 0xFFFFFFFF result
     = Deaggregate_loop (cursor + push_bit (nat (32 - Deaggregate_prefix_loop 0 cursor 0xFFFFFFFF)) 1)
         0xFFFFFFFF (result @ [(cursor, Deaggregate_prefix_loop 0 cursor 0xFFFFFFFF)])"
proof -
  have "cursor \<le> - 1" by simp
  then have "cursor \<le> 0xFFFFFFFF" by (simp only: all_ones_minus_1)
  then show ?thesis
    by (subst Deaggregate_loop.simps) (simp only: if_True Let_def)
qed

text \<open>
  Claim C3. For every pair of valid IPv4 addresses with \<open>start \<le> end\<close>, the main loop of
  \<open>Deaggregate\<close> terminates if and only if \<open>end\<close> is not 255.255.255.255, and so
  \<open>Deaggregate\<close> returns exactly then. When \<open>end\<close> is 255.255.255.255 every value of the
  32-bit cursor is \<open>\<le> end\<close>: each iteration, whatever the cursor, appends a block, advances
  the cursor by \<open>1 << (32 - prefix)\<close> with wrap-around and goes round the loop again.
\<close>

theorem Deaggregate_loop_termination:
  assumes "ParseIPv4 startStr = Inr start" and "ParseIPv4 endStr = Inr endip"
    and "start \<le> endip"
  shows "((\<exists>r. Deaggregate_loop start endip [] = Some r) \<longleftrightarrow> endip \<noteq> 0xFFFFFFFF)
       \<and> ((Deaggregate startStr endStr = None) \<longleftrightarrow> endip = 0xFFFFFFFF)
       \<and> (endip = 0xFFFFFFFF \<longrightarrow>
            (\<forall>cursor result. cursor \<le> endip
               \<and> Deaggregate_loop cursor endip result
                   = Deaggregate_loop
                       (cursor + push_bit (nat (32 - Deaggregate_prefix_loop 0 cursor endip)) 1)
                       endip (result @ [(cursor, Deaggregate_prefix_loop 0 cursor endip)])))"
proof (intro conjI impI allI)
  show "(\<exists>r. Deaggregate_loop start endip [] = Some r) \<longleftrightarrow> endip \<noteq> 0xFFFFFFFF"
    unfolding all_ones_minus_1 by (rule Deaggregate_loop_Some_iff)
  show "(Deaggregate startStr endStr = None) \<longleftrightarrow> endip = 0xFFFFFFFF"
    unfolding all_ones_minus_1 by (rule Deaggregate_None_iff [OF assms])
next
  fix cursor :: u32 and result :: "block list"
  assume e: "endip = 0xFFFFFFFF"
  then have "endip = - 1" by (simp only: all_ones_minus_1)
  then show "cursor \<le> endip" by simp
  show "Deaggregate_loop cursor endip result
          = Deaggregate_loop
              (cursor + push_bit (nat (32 - Deaggregate_prefix_loop 0 cursor endip)) 1)
              endip (result @ [(cursor, Deaggregate_prefix_loop 0 cursor endip)])"
    unfolding e by (rule Deaggregate_loop_top_again)
qed

theorem Deaggregate_loop_termination_witness:
  "(ParseIPv4 ''10.0.0.0'' = Inr 0x0A000000 \<and> ParseIPv4 ''10.0.0.255'' = Inr 0x0A0000FF
      \<and> (0x0A000000 :: u32) \<le> 0x0A0000FF)
   \<and> (\<exists>r. Deaggregate_loop 0x0A000000 0x0A0000FF [] = Some r)
   \<and> Deaggregate ''10.0.0.0'' ''10.0.0.255'' \<noteq> None
   \<and> (ParseIPv4 ''0.0.0.0'' = Inr 0 \<and> ParseIPv4 ''255.255.255.255'' = Inr 0xFFFFFFFF
      \<and> (0 :: u32) \<le> 0xFFFFFFFF)
   \<and> \<not> (\<exists>r. Deaggregate_loop 0 0xFFFFFFFF [] = Some r)
   \<and> Deaggregate ''0.0.0.0'' ''255.255.255.255'' = None
   \<and> (\<forall>cursor :: u32. cursor \<le> 0xFFFFFFFF)"
proof -
  have le1: "(0x0A000000 :: u32) \<le> 0x0A0000FF" by simp
  have le2: "(0 :: u32) \<le> 0xFFFFFFFF" by simp
  have ne: "(0x0A0000FF :: u32) \<noteq> 0xFFFFFFFF" by simp
  note a = Deaggregate_loop_termination [OF parse_10_0_0_0 parse_10_0_0_255 le1]
  note b = Deaggregate_loop_termination [OF parse_0_0_0_0 parse_255_255_255_255 le2]
  from a ne have a1: "\<exists>r. Deaggregate_loop 0x0A000000 0x0A0000FF [] = Some r"
    by (rule_tac iffD2 [OF conjunct1])
  from a ne have a2: "Deaggregate ''10.0.0.0'' ''10.0.0.255'' \<noteq> None"
    by (auto dest: iffD1 [OF conjunct1 [OF conjunct2]])
  from b have b1: "\<not> (\<exists>r. Deaggregate_loop 0 0xFFFFFFFF [] = Some r)"
    by (auto dest: iffD1 [OF conjunct1])
  from b have b2: "Deaggregate ''0.0.0.0'' ''255.255.255.255'' = None"
    by (rule_tac iffD2 [OF conjunct1 [OF conjunct2]]) simp_all
  from b have b3: "\<forall>cursor result. cursor \<le> (0xFFFFFFFF :: u32)
               \<and> Deaggregate_loop cursor 0xFFFFFFFF result
                   = Deaggregate_loop
                       (cursor + push_bit (nat (32 - Deaggregate_prefix_loop 0 cursor 0xFFFFFFFF)) 1)
                       0xFFFFFFFF (result @ [(cursor, Deaggregate_prefix_loop 0 cursor 0xFFFFFFFF)])"
    by (rule_tac mp [OF conjunct2 [OF conjunct2]]) simp_all
  then have b4: "\<forall>cursor :: u32. cursor \<le> 0xFFFFFFFF" by blast
  show ?thesis
    by (intro conjI parse_10_0_0_0 parse_10_0_0_255 le1 a1 a2 parse_0_0_0_0
        parse_255_255_255_255 le2 b1 b2 b4)
qed

section \<open>Deaggregate: the whole address space\<close>

lemma Deaggregate_prefix_loop_top: "Deaggregate_prefix_loop 0 0 0xFFFFFFFF = 0"
  by (simp add: Deaggregate_prefix_loop.simps [of 0])

text \<open>
  Claim C1, at the range 0.0.0.0 to 255.255.255.255. Both texts parse and
  \<open>start \<le> end\<close>; the inner loop chooses prefix 0, so the first iteration appends the
  block 0.0.0.0/0, which is the whole answer; the cursor advance \<open>1 << 32\<close> is 0 on
  \<open>uint32\<close>, the cursor stays at 0, the next iteration starts from the same cursor with one
  more block in the list, and \<open>Deaggregate\<close> does not return.
\<close>

theorem Deaggregate_whole_space_diverges:
  "ParseIPv4 ''0.0.0.0'' = Inr 0 \<and> ParseIPv4 ''255.255.255.255'' = Inr 0xFFFFFFFF
   \<and> Deaggregate_prefix_loop 0 0 0xFFFFFFFF = 0
   \<and> (0 :: u32) + push_bit (nat (32 - 0)) 1 = 0
   \<and> Deaggregate_loop 0 0xFFFFFFFF [] = Deaggregate_loop 0 0xFFFFFFFF [(0, 0)]
   \<and> Deaggregate ''0.0.0.0'' ''255.255.255.255'' = None"
proof -
  have le2: "(0 :: u32) \<le> 0xFFFFFFFF" by simp
  have z: "(4294967296 :: u32) = 0" using two_pow_32 by simp
  have w: "(0 :: u32) + push_bit (nat (32 - 0)) 1 = 0" by (simp add: z)
  have u: "Deaggregate_loop 0 0xFFFFFFFF [] = Deaggregate_loop 0 0xFFFFFFFF [(0, 0)]"
    by (subst Deaggregate_loop.simps) (simp add: Deaggregate_prefix_loop_top z)
  have d: "Deaggregate ''0.0.0.0'' ''255.255.255.255'' = None"
    by (rule iffD2 [OF Deaggregate_None_iff [OF parse_0_0_0_0 parse_255_255_255_255 le2]])
       (simp only: all_ones_minus_1)
  show ?thesis
    by (intro conjI parse_0_0_0_0 parse_255_255_255_255 Deaggregate_prefix_loop_top w u d)
qed

section \<open>SplitNetwork: evaluation\<close>

lemma split_2_100: "SplitNetwork ''192.168.0.0'' ''24'' [2, 100]
    = Some (Inr [''192.168.0.0/30'', ''192.168.0.0/25''])"
  by code_simp

lemma sizes_2_100: "sizes_loop [2, 100] [] 0 = Some ([4, 128], 132)"
  by code_simp

lemma alloc_4_128: "alloc_loop [4, 128] 0xC0A80000 []
    = Inr [(0xC0A80000, 30), (0xC0A80000, 25)]"
  by code_simp

lemma strings_30_25: "map block_string [(0xC0A80000, 30), (0xC0A80000, 25)]
    = [''192.168.0.0/30'', ''192.168.0.0/25'']"
  by code_simp

lemma cursor_after_30: "(0xC0A80000 :: u32) + push_bit (nat (32 - 30)) 1 = 0xC0A80004"
  by simp

lemma cursor_masked_25: "(0xC0A80004 :: u32) AND mask_of_bitCount 25 = 0xC0A80000"
  by code_simp

lemma cursor_unaligned: "\<not> block_aligned (0xC0A80004, 25)"
  by (simp add: block_aligned_def)

lemma blocks_overlap: "block_addrs (0xC0A80000, 30) \<inter> block_addrs (0xC0A80000, 25)
     = {3232235520, 3232235521, 3232235522, 3232235523}"
  by (auto simp add: block_addrs_def)

text \<open>
  Claim C4. \<open>SplitNetwork\<close> does not guarantee that the returned subnets are disjoint:
  \<open>SplitNetwork("192.168.0.0", "24", [2, 100])\<close> returns 192.168.0.0/30 followed by
  192.168.0.0/25. The requests are sized to 4 and 128 addresses; after the /30 the cursor
  is 192.168.0.4, which is not aligned to a /25; \<open>CalculateNetwork\<close> masks it down to
  192.168.0.0, the base of the subnet already allocated, and the four addresses of the /30
  belong to both blocks.
\<close>

theorem SplitNetwork_blocks_overlap:
  "SplitNetwork ''192.168.0.0'' ''24'' [2, 100]
     = Some (Inr [''192.168.0.0/30'', ''192.168.0.0/25''])
   \<and> sizes_loop [2, 100] [] 0 = Some ([4, 128], 132)
   \<and> alloc_loop [4, 128] 0xC0A80000 [] = Inr [(0xC0A80000, 30), (0xC0A80000, 25)]
   \<and> map block_string [(0xC0A80000, 30), (0xC0A80000, 25)]
       = [''192.168.0.0/30'', ''192.168.0.0/25'']
   \<and> (0xC0A80000 :: u32) + push_bit (nat (32 - 30)) 1 = 0xC0A80004
   \<and> \<not> block_aligned (0xC0A80004, 25)
   \<and> (0xC0A80004 :: u32) AND mask_of_bitCount 25 = 0xC0A80000
   \<and> block_addrs (0xC0A80000, 30) \<inter> block_addrs (0xC0A80000, 25)
       = {3232235520, 3232235521, 3232235522, 3232235523}"
  by (intro conjI split_2_100 sizes_2_100 alloc_4_128 strings_30_25 cursor_after_30
      cursor_unaligned cursor_masked_25 blocks_overlap)

lemma sizes_2: "sizes_loop [2] [] 0 = Some ([4], 4)"
  by code_simp

lemma calc_0_0_0_0_0:
  "map_sum id (\<lambda>n. (NetworkID n, BitCount n)) (CalculateNetwork ''0.0.0.0'' ''0'') = Inr (0, 0)"
  by code_simp

lemma totalHosts_0: "push_bit (unat (32 - word_of_int 0 :: u32)) (1 :: u32) = 0"
  by (simp add: two_pow_32)

lemma split_whole_space: "SplitNetwork ''0.0.0.0'' ''0'' [2] = Some (Inl (SizesExceedSpace 4 0))"
  by code_simp

lemma split_100_50_25: "SplitNetwork ''192.168.0.0'' ''24'' [100, 50, 25]
    = Some (Inr [''192.168.0.0/25'', ''192.168.0.128/26'', ''192.168.0.192/27''])"
  by code_simp

text \<open>
  Claim C2, at the base network 0.0.0.0/0 with the single request of 2 hosts. The base
  network is valid, with network address 0 and prefix length 0; the request is sized to a
  block of 4 addresses and the sum is 4, far below the \<open>2^32\<close> addresses of the network. The
  code computes the capacity as \<open>uint32(1) << 32\<close>, which is 0, finds \<open>4 > 0\<close> and fails
  with the error that reports the totals 4 and 0, instead of returning the subnet
  0.0.0.0/30.
\<close>

theorem SplitNetwork_whole_space_rejected:
  "map_sum id (\<lambda>n. (NetworkID n, BitCount n)) (CalculateNetwork ''0.0.0.0'' ''0'') = Inr (0, 0)
   \<and> sizes_loop [2] [] 0 = Some ([4], 4)
   \<and> push_bit (unat (32 - word_of_int 0 :: u32)) (1 :: u32) = 0
   \<and> SplitNetwork ''0.0.0.0'' ''0'' [2] = Some (Inl (SizesExceedSpace 4 0))"
  by (intro conjI calc_0_0_0_0_0 sizes_2 totalHosts_0 split_whole_space)

end
